theory Spec2Isabelle
  imports Complex_Main "HOL-Library.Word" "HOL-Library.AList"
begin

section \<open>The dubbing studio: data model\<close>

text \<open>
  The studio is a React component (\<^verbatim>\<open>DubbingStudio\<close>) whose state lives in hooks and refs,
  plus a service module holding the WAV encoder. JavaScript numbers that carry times,
  gains and samples are modelled as exact reals; every function below follows one function
  or handler of the source, in the order in which the source performs its steps.
\<close>

subsection \<open>Audio buffers and \<^verbatim>\<open>trimAudioBuffer\<close>\<close>

text \<open>
  An \<^verbatim>\<open>AudioBuffer\<close> holds one sample array per channel and a sample rate. The Web Audio
  API only ever builds buffers with at least one channel, all channels of one length;
  \<open>wf_buffer\<close> states that. Where the source would throw on a buffer outside it
  (\<^verbatim>\<open>getChannelData\<close> of a missing channel, \<^verbatim>\<open>createBuffer\<close> of length 0), the model
  returns the exception as a value.
\<close>

record AudioBuffer =
  channels :: "real list list"
  sampleRate :: real

datatype DOMException = IndexSizeError | NotSupportedError

definition numberOfChannels :: "AudioBuffer \<Rightarrow> nat" where
  "numberOfChannels b = length (channels b)"

definition getChannelData :: "AudioBuffer \<Rightarrow> nat \<Rightarrow> DOMException + real list" where
  "getChannelData b ch =
     (if ch < numberOfChannels b then Inr (channels b ! ch) else Inl IndexSizeError)"

definition buffer_length :: "AudioBuffer \<Rightarrow> nat" where
  "buffer_length b = (case channels b of [] \<Rightarrow> 0 | c # _ \<Rightarrow> length c)"

definition duration :: "AudioBuffer \<Rightarrow> real" where
  "duration b = real (buffer_length b) / sampleRate b"

definition wf_buffer :: "AudioBuffer \<Rightarrow> bool" where
  "wf_buffer b \<longleftrightarrow>
     channels b \<noteq> [] \<and> list_all (\<lambda>c. length c = buffer_length b) (channels b)"

definition threshold :: real where
  "threshold = 0.02"

text \<open>The first loop of \<^verbatim>\<open>trimAudioBuffer\<close>: \<open>i\<close> runs upwards, \<open>start\<close> keeps its
  initial value unless a sample above the threshold is met.\<close>

function scanForward :: "real list \<Rightarrow> nat \<Rightarrow> nat \<Rightarrow> nat" where
  "scanForward channelData i start =
     (if i < length channelData
      then (if \<bar>channelData ! i\<bar> > threshold then i
            else scanForward channelData (Suc i) start)
      else start)"
  by pat_completeness auto
termination
  by (relation "measure (\<lambda>(channelData, i, start). length channelData - i)") auto

declare scanForward.simps [simp del]

text \<open>The second loop: \<open>i\<close> runs from \<open>length - 1\<close> down to \<open>0\<close>; the argument \<open>k\<close> is
  \<open>i + 1\<close>, so that the loop's exit at \<open>i = -1\<close> is \<open>k = 0\<close>.\<close>

fun scanBackward :: "real list \<Rightarrow> nat \<Rightarrow> nat \<Rightarrow> nat" where
  "scanBackward channelData 0 end = end"
| "scanBackward channelData (Suc i) end =
     (if \<bar>channelData ! i\<bar> > threshold then i + 1
      else scanBackward channelData i end)"

definition trimStart :: "real list \<Rightarrow> nat" where
  "trimStart channelData = scanForward channelData 0 0"

definition trimEnd :: "real list \<Rightarrow> nat" where
  "trimEnd channelData = scanBackward channelData (length channelData) (length channelData)"

text \<open>The copy loop: \<^verbatim>\<open>newData[i] = oldData[start + i]\<close> for \<open>i < newLength\<close>.\<close>

definition copyChannel :: "nat \<Rightarrow> nat \<Rightarrow> real list \<Rightarrow> real list" where
  "copyChannel start newLength oldData = map (\<lambda>i. oldData ! (start + i)) [0..<newLength]"

definition createBuffer :: "nat \<Rightarrow> nat \<Rightarrow> real \<Rightarrow> DOMException + AudioBuffer" where
  "createBuffer nch len rate =
     (if nch = 0 \<or> len = 0 then Inl NotSupportedError
      else Inr \<lparr>channels = replicate nch (replicate len 0), sampleRate = rate\<rparr>)"

definition trimAudioBuffer :: "AudioBuffer \<Rightarrow> DOMException + AudioBuffer" where
  "trimAudioBuffer buffer =
     (case getChannelData buffer 0 of
        Inl e \<Rightarrow> Inl e
      | Inr channelData \<Rightarrow>
          let start = trimStart channelData;
              end = trimEnd channelData
          in if end \<le> start then Inr buffer
             else
               let newLength = end - start
               in (case createBuffer (numberOfChannels buffer) newLength (sampleRate buffer) of
                     Inl e \<Rightarrow> Inl e
                   | Inr newBuffer \<Rightarrow>
                       Inr (newBuffer\<lparr>channels :=
                              map (copyChannel start newLength) (channels buffer)\<rparr>)))"

subsection \<open>The WAV encoder \<^verbatim>\<open>pcmToWav\<close> (services/geminiService.ts)\<close>

text \<open>
  An \<^verbatim>\<open>ArrayBuffer\<close> is a list of bytes. A \<^verbatim>\<open>DataView\<close> write outside the buffer throws a
  \<^verbatim>\<open>RangeError\<close>: the writers return \<open>None\<close> there. A written number is reduced to the
  width of the field, as \<^verbatim>\<open>ToUint8\<close>, \<^verbatim>\<open>ToUint16\<close> and \<^verbatim>\<open>ToUint32\<close> do (\<open>of_nat\<close> into a
  byte is \<open>mod 256\<close>). The sample rate is an integral number, so the division by 8 in
  \<^verbatim>\<open>byteRate\<close> is exact.
\<close>

type_synonym byte = "8 word"

record Blob =
  blob_bytes :: "byte list"
  blob_type :: string

definition setUint8 :: "byte list \<Rightarrow> nat \<Rightarrow> nat \<Rightarrow> byte list option" where
  "setUint8 view byteOffset v =
     (if byteOffset < length view then Some (view[byteOffset := of_nat v]) else None)"

definition setUint16 :: "byte list \<Rightarrow> nat \<Rightarrow> nat \<Rightarrow> bool \<Rightarrow> byte list option" where
  "setUint16 view byteOffset v littleEndian =
     (if byteOffset + 2 \<le> length view
      then Some (if littleEndian
                 then view[byteOffset := of_nat v, byteOffset + 1 := of_nat (v div 256)]
                 else view[byteOffset := of_nat (v div 256), byteOffset + 1 := of_nat v])
      else None)"

definition setUint32 :: "byte list \<Rightarrow> nat \<Rightarrow> nat \<Rightarrow> bool \<Rightarrow> byte list option" where
  "setUint32 view byteOffset v littleEndian =
     (if byteOffset + 4 \<le> length view
      then Some (if littleEndian
                 then view[byteOffset := of_nat v,
                           byteOffset + 1 := of_nat (v div 256),
                           byteOffset + 2 := of_nat (v div 65536),
                           byteOffset + 3 := of_nat (v div 16777216)]
                 else view[byteOffset := of_nat (v div 16777216),
                           byteOffset + 1 := of_nat (v div 65536),
                           byteOffset + 2 := of_nat (v div 256),
                           byteOffset + 3 := of_nat v])
      else None)"

text \<open>\<^verbatim>\<open>writeString\<close>: the loop over \<open>i\<close> writes \<^verbatim>\<open>charCodeAt(i)\<close> at \<open>offset + i\<close>; the
  recursion moves the offset along with the rest of the string.\<close>

fun writeString :: "byte list \<Rightarrow> nat \<Rightarrow> string \<Rightarrow> byte list option" where
  "writeString view offset [] = Some view"
| "writeString view offset (c # cs) =
     (case setUint8 view offset (of_char c) of
        None \<Rightarrow> None
      | Some view' \<Rightarrow> writeString view' (offset + 1) cs)"

text \<open>\<^verbatim>\<open>new Uint8Array(buffer, 44).set(pcmData)\<close>: the source array is copied to the start
  of the view, which begins at byte \<open>off\<close> of the buffer.\<close>

definition typedArraySet :: "byte list \<Rightarrow> nat \<Rightarrow> byte list \<Rightarrow> byte list option" where
  "typedArraySet buffer off src =
     (if off + length src \<le> length buffer
      then Some (take off buffer @ src @ drop (off + length src) buffer)
      else None)"

definition pcmToWav :: "byte list \<Rightarrow> nat \<Rightarrow> Blob option" where
  "pcmToWav pcmData rate =
     (let numChannels = 1;
          bitsPerSample = 16;
          byteRate = (rate * numChannels * bitsPerSample) div 8;
          blockAlign = (numChannels * bitsPerSample) div 8;
          dataSize = length pcmData;
          buffer = replicate (44 + dataSize) (0 :: byte)
      in Option.bind (writeString buffer 0 ''RIFF'') (\<lambda>view.
         Option.bind (setUint32 view 4 (36 + dataSize) True) (\<lambda>view.
         Option.bind (writeString view 8 ''WAVE'') (\<lambda>view.
         Option.bind (writeString view 12 ''fmt '') (\<lambda>view.
         Option.bind (setUint32 view 16 16 True) (\<lambda>view.
         Option.bind (setUint16 view 20 1 True) (\<lambda>view.
         Option.bind (setUint16 view 22 numChannels True) (\<lambda>view.
         Option.bind (setUint32 view 24 rate True) (\<lambda>view.
         Option.bind (setUint32 view 28 byteRate True) (\<lambda>view.
         Option.bind (setUint16 view 32 blockAlign True) (\<lambda>view.
         Option.bind (setUint16 view 34 bitsPerSample True) (\<lambda>view.
         Option.bind (writeString view 36 ''data'') (\<lambda>view.
         Option.bind (setUint32 view 40 dataSize True) (\<lambda>view.
         Option.bind (typedArraySet view 44 pcmData) (\<lambda>bytes.
         Some \<lparr>blob_bytes = bytes, blob_type = ''audio/wav''\<rparr>)))))))))))))))"

text \<open>\<^verbatim>\<open>generateSpeech\<close>, from the decoded base64 string on: each code unit of the binary
  string becomes one byte, and the bytes are wrapped at 24 kHz.\<close>

definition speechToWav :: "nat list \<Rightarrow> Blob option" where
  "speechToWav binaryString = pcmToWav (map of_nat binaryString) 24000"

text \<open>
  The reader of the container layout of the specification (section 6), used to state the
  round trip. The decoder that the application runs is the browser's \<^verbatim>\<open>decodeAudioData\<close>;
  \<open>spec_decodeWav\<close> reads the 44-byte header field by field as the specification lays it
  out and returns the fields and the data bytes that follow it.
\<close>

record WavFile =
  wav_riffSize :: nat
  wav_fmtSize :: nat
  wav_format :: nat
  wav_channels :: nat
  wav_sampleRate :: nat
  wav_byteRate :: nat
  wav_blockAlign :: nat
  wav_bitsPerSample :: nat
  wav_dataSize :: nat
  wav_data :: "byte list"

definition getUint16LE :: "byte list \<Rightarrow> nat \<Rightarrow> nat" where
  "getUint16LE bs off = unat (bs ! off) + 256 * unat (bs ! (off + 1))"

definition getUint32LE :: "byte list \<Rightarrow> nat \<Rightarrow> nat" where
  "getUint32LE bs off =
     unat (bs ! off) + 256 * unat (bs ! (off + 1)) + 65536 * unat (bs ! (off + 2))
       + 16777216 * unat (bs ! (off + 3))"

definition tag_at :: "byte list \<Rightarrow> nat \<Rightarrow> string \<Rightarrow> bool" where
  "tag_at bs off s \<longleftrightarrow> take (length s) (drop off bs) = map of_char s"

definition spec_decodeWav :: "byte list \<Rightarrow> WavFile option" where
  "spec_decodeWav bs =
     (if length bs < 44 then None
      else if \<not> (tag_at bs 0 ''RIFF'' \<and> tag_at bs 8 ''WAVE'' \<and> tag_at bs 12 ''fmt ''
                 \<and> tag_at bs 36 ''data'') then None
      else if length bs < 44 + getUint32LE bs 40 then None
      else Some \<lparr>wav_riffSize = getUint32LE bs 4,
                 wav_fmtSize = getUint32LE bs 16,
                 wav_format = getUint16LE bs 20,
                 wav_channels = getUint16LE bs 22,
                 wav_sampleRate = getUint32LE bs 24,
                 wav_byteRate = getUint32LE bs 28,
                 wav_blockAlign = getUint16LE bs 32,
                 wav_bitsPerSample = getUint16LE bs 34,
                 wav_dataSize = getUint32LE bs 40,
                 wav_data = take (getUint32LE bs 40) (drop 44 bs)\<rparr>)"

text \<open>The header as one list of bytes, for comparison with what \<open>pcmToWav\<close> writes.\<close>

definition le16 :: "nat \<Rightarrow> byte list" where
  "le16 v = [of_nat v, of_nat (v div 256)]"

definition le32 :: "nat \<Rightarrow> byte list" where
  "le32 v = [of_nat v, of_nat (v div 256), of_nat (v div 65536), of_nat (v div 16777216)]"

definition wav_header :: "nat \<Rightarrow> nat \<Rightarrow> byte list" where
  "wav_header rate dataSize =
     map of_char ''RIFF'' @ le32 (36 + dataSize) @ map of_char ''WAVE''
     @ map of_char ''fmt '' @ le32 16 @ le16 1 @ le16 1 @ le32 rate
     @ le32 (rate * 1 * 16 div 8) @ le16 (1 * 16 div 8) @ le16 16
     @ map of_char ''data'' @ le32 dataSize"

subsection \<open>Voices and the speaker map (types.ts, \<^verbatim>\<open>startAnalysis\<close>)\<close>

datatype Gender = Male | Female

record TTSVoice =
  voice_name :: string
  gender :: Gender
  voice_id :: string

definition VOICES :: "TTSVoice list" where
  "VOICES =
     [\<lparr>voice_name = ''Kore'', gender = Female, voice_id = ''Kore''\<rparr>,
      \<lparr>voice_name = ''Puck'', gender = Male, voice_id = ''Puck''\<rparr>,
      \<lparr>voice_name = ''Fenrir'', gender = Male, voice_id = ''Fenrir''\<rparr>,
      \<lparr>voice_name = ''Charon'', gender = Male, voice_id = ''Charon''\<rparr>,
      \<lparr>voice_name = ''Zephyr'', gender = Female, voice_id = ''Zephyr''\<rparr>]"

text \<open>\<^verbatim>\<open>Array.prototype.findIndex\<close>: the index of the first match, \<open>-1\<close> when there is none.\<close>

fun findIndexFrom :: "('a \<Rightarrow> bool) \<Rightarrow> 'a list \<Rightarrow> int \<Rightarrow> int" where
  "findIndexFrom p [] i = -1"
| "findIndexFrom p (x # xs) i = (if p x then i else findIndexFrom p xs (i + 1))"

definition findIndex :: "('a \<Rightarrow> bool) \<Rightarrow> 'a list \<Rightarrow> int" where
  "findIndex p xs = findIndexFrom p xs 0"

text \<open>The remainder operator \<^verbatim>\<open>%\<close> on integers: the result takes the sign of the dividend.\<close>

definition js_rem :: "int \<Rightarrow> int \<Rightarrow> int" where
  "js_rem a b = sgn a * (\<bar>a\<bar> mod \<bar>b\<bar>)"

text \<open>\<^verbatim>\<open>VOICES[i]\<close> is \<^verbatim>\<open>undefined\<close> outside the array, and reading \<^verbatim>\<open>.id\<close> of it throws.\<close>

definition voiceAt :: "int \<Rightarrow> TTSVoice option" where
  "voiceAt i = (if 0 \<le> i \<and> i < int (length VOICES) then Some (VOICES ! nat i) else None)"

text \<open>\<^verbatim>\<open>Array.from(new Set(labels))\<close>: the distinct labels in the order of first appearance.\<close>

definition uniqueInOrder :: "'a list \<Rightarrow> 'a list" where
  "uniqueInOrder xs = foldl (\<lambda>acc x. if x \<in> set acc then acc else acc @ [x]) [] xs"

type_synonym SpeakerMap = "(string \<times> string) list"

text \<open>
  The speaker map is a plain object, held here as the list of its own properties. An
  assignment \<^verbatim>\<open>obj[key] = v\<close> of a string creates or overwrites the own property \<open>key\<close>,
  except for the key \<^verbatim>\<open>__proto__\<close>: that name is the accessor inherited from
  \<^verbatim>\<open>Object.prototype\<close>, whose setter ignores a value that is not an object, so the
  assignment stores nothing.
\<close>

definition objectSet :: "string \<Rightarrow> string \<Rightarrow> SpeakerMap \<Rightarrow> SpeakerMap" where
  "objectSet key v obj = (if key = ''__proto__'' then obj else AList.update key v obj)"

text \<open>The \<^verbatim>\<open>forEach((spk, idx) => ...)\<close> loop that fills \<^verbatim>\<open>newMap\<close>; \<open>None\<close> is the
  \<^verbatim>\<open>TypeError\<close> of a voice lookup outside \<open>VOICES\<close>.\<close>

fun assignVoices :: "string \<Rightarrow> string list \<Rightarrow> nat \<Rightarrow> SpeakerMap \<Rightarrow> SpeakerMap option" where
  "assignVoices dv [] idx newMap = Some newMap"
| "assignVoices dv (spk # rest) idx newMap =
     (if idx = 0 then assignVoices dv rest (Suc idx) (objectSet spk dv newMap)
      else
        let defaultIdx = findIndex (\<lambda>v. voice_id v = dv) VOICES;
            rotateIdx = js_rem (defaultIdx + int idx) (int (length VOICES))
        in (case voiceAt rotateIdx of
              None \<Rightarrow> None
            | Some v \<Rightarrow> assignVoices dv rest (Suc idx) (objectSet spk (voice_id v) newMap)))"

subsection \<open>The studio state\<close>

datatype AppStatus =
  IDLE | PROCESSING_VIDEO | ANALYZING | READY_TO_DUB | SYNTHESIZING | EXPORTING | COMPLETED | ERROR

record DubSegment =
  seg_id :: string
  startTime :: real
  endTime :: real
  originalText :: string
  translatedText :: string
  isSynthesizing :: "bool option"
  audioUrl :: "string option"
  speakerLabel :: string

datatype ContextState = suspended | running

record AudioContext =
  ctx_state :: ContextState
  ctx_currentTime :: real

text \<open>The video element: \<open>v_duration = None\<close> is a \<^verbatim>\<open>NaN\<close> duration; \<open>v_onended\<close> is the
  handler that \<^verbatim>\<open>handleExport\<close> installs, a closure over \<^verbatim>\<open>finalAudioEnd\<close>.\<close>

record VideoElement =
  v_currentTime :: real
  v_muted :: bool
  v_paused :: bool
  v_duration :: "real option"
  v_captureStream :: bool
  v_mozCaptureStream :: bool
  v_onended :: "real option"

text \<open>An \<^verbatim>\<open>AudioBufferSourceNode\<close> that has been started: its buffer, the engine time it
  starts at, whether it also feeds the recording destination, and whether \<^verbatim>\<open>stop()\<close> has
  been called on it. Nodes live in \<open>sourceNodes\<close>; the active map holds their indices.\<close>

record SourceNode =
  sn_buffer :: AudioBuffer
  sn_startAt :: real
  sn_toMaster :: bool
  sn_stopped :: bool

datatype RecorderState = inactive | recording

record MediaRecorder =
  rec_mimeType :: string
  rec_state :: RecorderState

datatype TimerAction = RecorderStop

record Download =
  dl_langCode :: string
  dl_timestamp :: nat

record Studio =
  status :: AppStatus
  fileLoaded :: bool
  segments :: "DubSegment list"
  isPlaying :: bool
  defaultVoice :: string
  speakerMap :: SpeakerMap
  detectedSpeakers :: "string list"
  targetLangCode :: string
  video :: "VideoElement option"
  audioContext :: "AudioContext option"
  monitorGain :: "real option"
  masterDest :: bool
  sourceNodes :: "SourceNode list"
  activeSourceNodes :: "(string \<times> nat) list"
  audioBuffers :: "(string \<times> AudioBuffer) list"
  lastSegmentEndTime :: real
  freshContextState :: ContextState
  vp9Supported :: bool
  recorder :: "MediaRecorder option"
  timers :: "(real \<times> TimerAction) list"
  alerts :: "string list"
  downloads :: "Download list"

text \<open>Two fields stand for the browser: \<open>freshContextState\<close> is the state in which a new
  \<^verbatim>\<open>AudioContext\<close> starts (the autoplay policy decides), \<open>vp9Supported\<close> is what
  \<^verbatim>\<open>MediaRecorder.isTypeSupported\<close> answers for VP9.\<close>

text \<open>What one call of \<^verbatim>\<open>scheduleSegment\<close> computed, for the segments it did schedule.\<close>

record SchedInfo =
  si_id :: string
  si_idealStart :: real
  si_safePlayAt :: real
  si_duration :: real
  si_playAt :: real

text \<open>The external synthesis: text and voice to a blob URL and the decoded audio, \<open>None\<close>
  when \<^verbatim>\<open>generateSpeech\<close>, the fetch or \<^verbatim>\<open>decodeAudioData\<close> throws.\<close>

type_synonym Synth = "string \<Rightarrow> string \<Rightarrow> (string \<times> AudioBuffer) option"

subsection \<open>Handlers of the component\<close>

text \<open>\<^verbatim>\<open>initAudioContext\<close>: the suppression graph it builds for a fresh context carries no
  state of its own and is left out; an existing, suspended context is resumed.\<close>

definition initAudioContext :: "Studio \<Rightarrow> Studio" where
  "initAudioContext st =
     (case audioContext st of
        None \<Rightarrow> st\<lparr>audioContext := Some \<lparr>ctx_state = freshContextState st, ctx_currentTime = 0\<rparr>,
                    monitorGain := Some 1, masterDest := True\<rparr>
      | Some ctx \<Rightarrow>
          if ctx_state ctx = suspended
          then st\<lparr>audioContext := Some (ctx\<lparr>ctx_state := running\<rparr>)\<rparr>
          else st)"

text \<open>\<^verbatim>\<open>startAnalysis\<close>; \<open>analysis\<close> is what the awaited \<^verbatim>\<open>analyzeVideo\<close> call gives, \<open>None\<close>
  when it throws. A throw inside the \<^verbatim>\<open>try\<close> block ends in the state \<open>ERROR\<close>, with the
  state updates made before it kept.\<close>

definition startAnalysis :: "DubSegment list option \<Rightarrow> Studio \<Rightarrow> Studio" where
  "startAnalysis analysis st =
     (if \<not> fileLoaded st then st
      else
        let st0 = (initAudioContext st)\<lparr>status := ANALYZING\<rparr>
        in (case analysis of
              None \<Rightarrow> st0\<lparr>status := ERROR\<rparr>
            | Some results \<Rightarrow>
                let speakers = uniqueInOrder (map speakerLabel results)
                in (case assignVoices (defaultVoice st) speakers 0 [] of
                      None \<Rightarrow> st0\<lparr>segments := results, detectedSpeakers := speakers,
                                  status := ERROR\<rparr>
                    | Some newMap \<Rightarrow>
                        st0\<lparr>segments := results, detectedSpeakers := speakers,
                            speakerMap := newMap, status := READY_TO_DUB\<rparr>)))"

definition resumeContext :: "Studio \<Rightarrow> Studio" where
  "resumeContext st = st\<lparr>audioContext := map_option (\<lambda>c. c\<lparr>ctx_state := running\<rparr>) (audioContext st)\<rparr>"

definition stopNode :: "nat \<Rightarrow> SourceNode list \<Rightarrow> SourceNode list" where
  "stopNode a ns = (if a < length ns then ns[a := (ns ! a)\<lparr>sn_stopped := True\<rparr>] else ns)"

definition stopAllAudio :: "Studio \<Rightarrow> Studio" where
  "stopAllAudio st =
     st\<lparr>sourceNodes := foldl (\<lambda>ns (h, a). stopNode a ns) (sourceNodes st) (activeSourceNodes st),
        activeSourceNodes := []\<rparr>"

text \<open>The text area's \<^verbatim>\<open>onChange\<close> of a segment, and the video element's \<^verbatim>\<open>onPlay\<close> and
  \<^verbatim>\<open>onPause\<close>.\<close>

definition editTranslatedText :: "string \<Rightarrow> string \<Rightarrow> Studio \<Rightarrow> Studio" where
  "editTranslatedText sid txt st =
     st\<lparr>segments := map (\<lambda>s. if seg_id s = sid
                               then s\<lparr>translatedText := txt, audioUrl := None\<rparr> else s)
                         (segments st)\<rparr>"

definition videoOnPlay :: "Studio \<Rightarrow> Studio" where
  "videoOnPlay st = st\<lparr>isPlaying := True\<rparr>"

definition videoOnPause :: "Studio \<Rightarrow> Studio" where
  "videoOnPause st = st\<lparr>isPlaying := False\<rparr>"

definition scheduleSegment :: "DubSegment \<Rightarrow> real \<Rightarrow> Studio \<Rightarrow> SchedInfo option \<times> Studio" where
  "scheduleSegment segment anchorTime st =
     (case map_of (audioBuffers st) (seg_id segment) of
        None \<Rightarrow> (None, st)
      | Some buffer \<Rightarrow>
          (case audioContext st of
             None \<Rightarrow> (None, st)
           | Some ctx \<Rightarrow>
               if \<not> masterDest st \<or> monitorGain st = None then (None, st)
               else
                 let idealStart = startTime segment;
                     previousEnd = lastSegmentEndTime st;
                     safePlayAt = max idealStart (previousEnd + 0.1);
                     dur = duration buffer;
                     playAt = ctx_currentTime ctx + max 0 (safePlayAt - anchorTime);
                     source = \<lparr>sn_buffer = buffer, sn_startAt = playAt, sn_toMaster = True,
                               sn_stopped = False\<rparr>
                 in (Some \<lparr>si_id = seg_id segment, si_idealStart = idealStart,
                           si_safePlayAt = safePlayAt, si_duration = dur, si_playAt = playAt\<rparr>,
                     st\<lparr>lastSegmentEndTime := safePlayAt + dur,
                        sourceNodes := sourceNodes st @ [source],
                        activeSourceNodes :=
                          AList.update (seg_id segment) (length (sourceNodes st))
                            (activeSourceNodes st)\<rparr>)))"

text \<open>\<^verbatim>\<open>sorted.forEach(seg => scheduleSegment(seg, anchor))\<close>.\<close>

fun scheduleAll :: "DubSegment list \<Rightarrow> real \<Rightarrow> Studio \<Rightarrow> SchedInfo list \<times> Studio" where
  "scheduleAll [] anchorTime st = ([], st)"
| "scheduleAll (seg # rest) anchorTime st =
     (case scheduleSegment seg anchorTime st of
        (r, st1) \<Rightarrow>
          (case scheduleAll rest anchorTime st1 of
             (rs, st2) \<Rightarrow> ((case r of None \<Rightarrow> [] | Some i \<Rightarrow> [i]) @ rs, st2)))"

text \<open>The three lines that \<^verbatim>\<open>playFullPreview\<close> and \<^verbatim>\<open>handleExport\<close> share: a stable sort by
  \<^verbatim>\<open>startTime\<close>, the cursor reset, and the pass from anchor 0.\<close>

definition schedulingPass :: "DubSegment list \<Rightarrow> Studio \<Rightarrow> SchedInfo list \<times> Studio" where
  "schedulingPass segs st =
     (let sorted = sort_key startTime segs
      in scheduleAll sorted 0 (st\<lparr>lastSegmentEndTime := 0\<rparr>))"

definition playFullPreview :: "Studio \<Rightarrow> Studio" where
  "playFullPreview st =
     (case video st of
        None \<Rightarrow> st
      | Some _ \<Rightarrow>
          (case audioContext st of
             None \<Rightarrow> st
           | Some _ \<Rightarrow>
               let st1 = initAudioContext st
               in if isPlaying st
                  then (stopAllAudio (st1\<lparr>video := map_option (\<lambda>v. v\<lparr>v_paused := True\<rparr>) (video st1)\<rparr>))
                         \<lparr>isPlaying := False\<rparr>
                  else
                    let st2 = resumeContext st1;
                        st3 = st2\<lparr>monitorGain := map_option (\<lambda>g. 1) (monitorGain st2)\<rparr>;
                        st4 = st3\<lparr>video := map_option (\<lambda>v. v\<lparr>v_currentTime := 0, v_muted := False\<rparr>)
                                              (video st3)\<rparr>;
                        st5 = snd (schedulingPass (segments st) st4)
                    in st5\<lparr>video := map_option (\<lambda>v. v\<lparr>v_paused := False\<rparr>) (video st5),
                          isPlaying := True\<rparr>))"

text \<open>One round of the auto-synthesis loop of \<^verbatim>\<open>handleExport\<close>, for one missing id;
  \<open>segs\<close> is the \<^verbatim>\<open>segments\<close> value that the handler closed over.\<close>

definition setSegment :: "string \<Rightarrow> (DubSegment \<Rightarrow> DubSegment) \<Rightarrow> Studio \<Rightarrow> Studio" where
  "setSegment sid f st = st\<lparr>segments := map (\<lambda>s. if seg_id s = sid then f s else s) (segments st)\<rparr>"

text \<open>\<^verbatim>\<open>speakerMap[seg.speakerLabel] || defaultVoice\<close>, read from the own properties of
  the map: a missing or empty voice gives the default voice. For a label without an own
  property that names a property inherited from \<^verbatim>\<open>Object.prototype\<close>, JavaScript reads the
  inherited value instead; the voice only reaches the synthesis service, and every
  property below holds for any such service.\<close>

definition voiceFor :: "Studio \<Rightarrow> DubSegment \<Rightarrow> string" where
  "voiceFor st seg =
     (case map_of (speakerMap st) (speakerLabel seg) of
        None \<Rightarrow> defaultVoice st
      | Some v \<Rightarrow> if v = [] then defaultVoice st else v)"

definition synthesizeMissing :: "Synth \<Rightarrow> DubSegment list \<Rightarrow> Studio \<Rightarrow> string \<Rightarrow> Studio" where
  "synthesizeMissing synth segs st sid =
     (case find (\<lambda>s. seg_id s = sid) segs of
        None \<Rightarrow> st
      | Some seg \<Rightarrow>
          let st1 = setSegment sid (\<lambda>s. s\<lparr>isSynthesizing := Some True\<rparr>) st
          in (case synth (translatedText seg) (voiceFor st seg) of
                None \<Rightarrow> st1
              | Some (url, decoded) \<Rightarrow>
                  (case audioContext st1 of
                     None \<Rightarrow>
                       setSegment sid (\<lambda>s. s\<lparr>audioUrl := Some url, isSynthesizing := Some False\<rparr>) st1
                   | Some _ \<Rightarrow>
                       (case trimAudioBuffer decoded of
                          Inl e \<Rightarrow> st1
                        | Inr audioBuffer \<Rightarrow>
                            setSegment sid
                              (\<lambda>s. s\<lparr>audioUrl := Some url, isSynthesizing := Some False\<rparr>)
                              (st1\<lparr>audioBuffers := AList.update sid audioBuffer (audioBuffers st1)\<rparr>)))))"

definition missingAudioIds :: "Studio \<Rightarrow> string list" where
  "missingAudioIds st =
     map seg_id (filter (\<lambda>s. map_of (audioBuffers st) (seg_id s) = None) (segments st))"

text \<open>\<^verbatim>\<open>recorder.stop()\<close> with its \<^verbatim>\<open>onstop\<close> handler, which saves the file; \<open>now\<close> is
  \<^verbatim>\<open>Date.now()\<close>.\<close>

definition recorderStop :: "nat \<Rightarrow> Studio \<Rightarrow> Studio" where
  "recorderStop now st =
     (case recorder st of
        None \<Rightarrow> st
      | Some r \<Rightarrow>
          if rec_state r = inactive then st
          else
            let st1 = st\<lparr>recorder := Some (r\<lparr>rec_state := inactive\<rparr>),
                        downloads := downloads st @ [\<lparr>dl_langCode = targetLangCode st, dl_timestamp = now\<rparr>],
                        status := COMPLETED,
                        video := map_option (\<lambda>v. v\<lparr>v_currentTime := 0, v_muted := False\<rparr>) (video st)\<rparr>;
                st2 = stopAllAudio st1
            in st2\<lparr>monitorGain := map_option (\<lambda>g. 1) (monitorGain st2)\<rparr>)"

definition handleExport :: "Synth \<Rightarrow> Studio \<Rightarrow> Studio" where
  "handleExport synth st =
     (case video st of
        None \<Rightarrow> st
      | Some _ \<Rightarrow>
          (case audioContext st of
             None \<Rightarrow> st
           | Some _ \<Rightarrow>
               if segments st = [] then st
               else
                 let ids = missingAudioIds st;
                     st1 = (if ids \<noteq> []
                            then foldl (synthesizeMissing synth (segments st))
                                   (initAudioContext (st\<lparr>status := SYNTHESIZING\<rparr>)) ids
                            else st);
                     st2 = initAudioContext (stopAllAudio (st1\<lparr>status := EXPORTING, isPlaying := False\<rparr>))
                 in if audioContext st2 = None \<or> \<not> masterDest st2 then st2
                    else
                      let st3 = resumeContext st2
                      in (case video st3 of
                            None \<Rightarrow> st3
                          | Some vidEl \<Rightarrow>
                              if \<not> v_captureStream vidEl \<and> \<not> v_mozCaptureStream vidEl
                              then st3\<lparr>alerts := alerts st3 @ [''Browser capture not supported.''],
                                      status := COMPLETED\<rparr>
                              else
                                let mimeType = (if vp9Supported st3 then ''video/webm;codecs=vp9''
                                                else ''video/webm'');
                                    st4 = st3\<lparr>recorder := Some \<lparr>rec_mimeType = mimeType, rec_state = inactive\<rparr>,
                                             monitorGain := map_option (\<lambda>g. 0) (monitorGain st3),
                                             video := Some (vidEl\<lparr>v_currentTime := 0, v_muted := False\<rparr>)\<rparr>;
                                    st5 = snd (schedulingPass (segments st) st4);
                                    finalAudioEnd = lastSegmentEndTime st5
                                in st5\<lparr>recorder := map_option (\<lambda>r. r\<lparr>rec_state := recording\<rparr>) (recorder st5),
                                      video := map_option (\<lambda>v. v\<lparr>v_paused := False,
                                                                 v_onended := Some finalAudioEnd\<rparr>) (video st5)\<rparr>)))"

text \<open>The \<^verbatim>\<open>onended\<close> handler installed by \<^verbatim>\<open>handleExport\<close>, and the callback of the timer it
  may set. A timer is its delay in milliseconds and what it does when it fires.\<close>

definition videoDuration :: "VideoElement option \<Rightarrow> real" where
  "videoDuration v = (case v of None \<Rightarrow> 0 | Some el \<Rightarrow> (case v_duration el of None \<Rightarrow> 0 | Some d \<Rightarrow> d))"

definition stopAndDetach :: "nat \<Rightarrow> Studio \<Rightarrow> Studio" where
  "stopAndDetach now st =
     (let st1 = recorderStop now st
      in st1\<lparr>video := map_option (\<lambda>v. v\<lparr>v_onended := None\<rparr>) (video st1)\<rparr>)"

definition exportOnEnded :: "nat \<Rightarrow> Studio \<Rightarrow> Studio" where
  "exportOnEnded now st =
     (case video st of
        None \<Rightarrow> st
      | Some vidEl \<Rightarrow>
          (case v_onended vidEl of
             None \<Rightarrow> st
           | Some finalAudioEnd \<Rightarrow>
               let extraTime = finalAudioEnd - videoDuration (video st)
               in if extraTime > 0
                  then st\<lparr>timers := timers st @ [((extraTime * 1000) + 200, RecorderStop)]\<rparr>
                  else stopAndDetach now st))"

definition fireTimer :: "nat \<Rightarrow> TimerAction \<Rightarrow> Studio \<Rightarrow> Studio" where
  "fireTimer now a st = (case a of RecorderStop \<Rightarrow> stopAndDetach now st)"

subsection \<open>Notions used to state the properties\<close>

text \<open>The audio engine is set up: the three refs that \<^verbatim>\<open>scheduleSegment\<close> tests are there.\<close>

definition engineReady :: "Studio \<Rightarrow> bool" where
  "engineReady st \<longleftrightarrow> audioContext st \<noteq> None \<and> masterDest st \<and> monitorGain st \<noteq> None"

definition hasBuffer :: "Studio \<Rightarrow> DubSegment \<Rightarrow> bool" where
  "hasBuffer st seg \<longleftrightarrow> map_of (audioBuffers st) (seg_id seg) \<noteq> None"

definition bufferDuration :: "Studio \<Rightarrow> DubSegment \<Rightarrow> real" where
  "bufferDuration st seg =
     (case map_of (audioBuffers st) (seg_id seg) of None \<Rightarrow> 0 | Some b \<Rightarrow> duration b)"

text \<open>The source nodes that a scheduling pass starts: those it adds to the engine.\<close>

definition startedBy :: "DubSegment list \<Rightarrow> Studio \<Rightarrow> SourceNode list" where
  "startedBy segs st =
     drop (length (sourceNodes st)) (sourceNodes (snd (schedulingPass segs st)))"

text \<open>The voice that the rotation gives the \<open>k\<close>-th detected speaker.\<close>

definition rotatedVoice :: "string \<Rightarrow> nat \<Rightarrow> string" where
  "rotatedVoice dv k =
     (if k = 0 then dv
      else voice_id (VOICES ! nat ((findIndex (\<lambda>v. voice_id v = dv) VOICES + int k) mod 5)))"

subsection \<open>Concrete sessions\<close>

text \<open>A mono buffer of \<open>n\<close> samples at 24 kHz, a segment with given id and times, and a
  session with a loaded video, a running engine and three synthesized segments: start
  times 0.0, 1.0 and 1.05 seconds, clips of 1.2, 0.3 and 0.5 seconds.\<close>

definition toneBuffer :: "nat \<Rightarrow> AudioBuffer" where
  "toneBuffer n = \<lparr>channels = [replicate n 0.5], sampleRate = 24000\<rparr>"

definition mkSegment :: "string \<Rightarrow> real \<Rightarrow> real \<Rightarrow> DubSegment" where
  "mkSegment sid t0 t1 =
     \<lparr>seg_id = sid, startTime = t0, endTime = t1, originalText = ''hello'',
      translatedText = ''marhaban'', isSynthesizing = Some False, audioUrl = Some ''blob:a'',
      speakerLabel = ''Speaker 1''\<rparr>"

definition scenario3 :: Studio where
  "scenario3 =
     \<lparr>status = READY_TO_DUB,
      fileLoaded = True,
      segments = [mkSegment ''seg-0'' 0.0 0.9, mkSegment ''seg-1'' 1.0 1.04,
                  mkSegment ''seg-2'' 1.05 2.0],
      isPlaying = False,
      defaultVoice = ''Kore'',
      speakerMap = [(''Speaker 1'', ''Kore'')],
      detectedSpeakers = [''Speaker 1''],
      targetLangCode = ''ar'',
      video = Some \<lparr>v_currentTime = 0, v_muted = False, v_paused = True, v_duration = Some 10,
                     v_captureStream = True, v_mozCaptureStream = False, v_onended = None\<rparr>,
      audioContext = Some \<lparr>ctx_state = running, ctx_currentTime = 5\<rparr>,
      monitorGain = Some 1,
      masterDest = True,
      sourceNodes = [],
      activeSourceNodes = [],
      audioBuffers = [(''seg-0'', toneBuffer 28800), (''seg-1'', toneBuffer 7200),
                      (''seg-2'', toneBuffer 12000)],
      lastSegmentEndTime = 0,
      freshContextState = suspended,
      vp9Supported = True,
      recorder = None,
      timers = [],
      alerts = [],
      downloads = []\<rparr>"

text \<open>The same session in a browser whose video element offers neither \<^verbatim>\<open>captureStream\<close>
  nor \<^verbatim>\<open>mozCaptureStream\<close>, and a synthesis service that always fails.\<close>

definition noCapture :: Studio where
  "noCapture =
     scenario3\<lparr>video := Some \<lparr>v_currentTime = 0, v_muted = False, v_paused = True,
                               v_duration = Some 10, v_captureStream = False,
                               v_mozCaptureStream = False, v_onended = None\<rparr>\<rparr>"

definition synthFails :: Synth where
  "synthFails txt voice = None"

text \<open>A one-sample silent stereo buffer and a buffer with quiet ends, for the trimmer.\<close>

definition quietBuffer :: AudioBuffer where
  "quietBuffer = \<lparr>channels = [[0.01, 0, -0.02], [0.5, 0.5, 0.5]], sampleRate = 24000\<rparr>"

definition paddedBuffer :: AudioBuffer where
  "paddedBuffer = \<lparr>channels = [[0, 0.01, 0.5, 0, -0.3, 0.02], [1, 2, 3, 4, 5, 6]],
                    sampleRate = 24000\<rparr>"

text \<open>What the auto-synthesis, the cancellation and the engine set-up of an export leave
  as it was: the video element, the presence of the engine, the recorder, timers, alerts
  and saved files, the scheduler cursor, and the identity, timing and text of every
  segment.\<close>

definition sessionKept :: "Studio \<Rightarrow> Studio \<Rightarrow> bool" where
  "sessionKept st st' \<longleftrightarrow>
     video st' = video st \<and> (audioContext st' = None) = (audioContext st = None)
     \<and> masterDest st' = masterDest st
     \<and> monitorGain st' = monitorGain st \<and> recorder st' = recorder st \<and> timers st' = timers st
     \<and> alerts st' = alerts st \<and> downloads st' = downloads st
     \<and> lastSegmentEndTime st' = lastSegmentEndTime st \<and> vp9Supported st' = vp9Supported st
     \<and> map seg_id (segments st') = map seg_id (segments st)
     \<and> map startTime (segments st') = map startTime (segments st)
     \<and> map endTime (segments st') = map endTime (segments st)
     \<and> map translatedText (segments st') = map translatedText (segments st)
     \<and> map originalText (segments st') = map originalText (segments st)
     \<and> map speakerLabel (segments st') = map speakerLabel (segments st)"



definition edited :: Studio where
  "edited = editTranslatedText ''seg-1'' ''ahlan'' scenario3"

text \<open>An analysis result with three speakers, the second and the fourth segment spoken by
  new ones, for a session whose default voice is Puck.\<close>

definition analysisResults :: "DubSegment list" where
  "analysisResults =
     [mkSegment ''seg-0'' 0.0 0.9,
      (mkSegment ''seg-1'' 1.0 1.5)\<lparr>speakerLabel := ''Speaker 2''\<rparr>,
      mkSegment ''seg-2'' 2.0 2.5,
      (mkSegment ''seg-3'' 3.0 3.5)\<lparr>speakerLabel := ''Speaker 3''\<rparr>]"

definition puckStudio :: Studio where
  "puckStudio = scenario3\<lparr>status := ANALYZING, segments := [], defaultVoice := ''Puck'',
                          speakerMap := [], detectedSpeakers := []\<rparr>"

section \<open>Properties\<close>

subsection \<open>The trimmer\<close>

lemma scanForward_quiet:
  "(\<forall>j. i \<le> j \<and> j < length cd \<longrightarrow> \<not> \<bar>cd ! j\<bar> > threshold) \<Longrightarrow> scanForward cd i s = s"
proof (induction cd i s rule: scanForward.induct)
  case (1 cd i s)
  show ?case
  proof (cases "i < length cd")
    case True
    with "1.prems" have q: "\<not> \<bar>cd ! i\<bar> > threshold" by simp
    have "scanForward cd (Suc i) s = s"
      using "1.IH" [OF True q] "1.prems" by simp
    with True q show ?thesis by (subst scanForward.simps) simp
  next
    case False
    then show ?thesis by (subst scanForward.simps) simp
  qed
qed

lemma scanForward_found:
  "i \<le> k \<Longrightarrow> k < length cd \<Longrightarrow> \<bar>cd ! k\<bar> > threshold \<Longrightarrow>
   (\<forall>j. i \<le> j \<and> j < k \<longrightarrow> \<not> \<bar>cd ! j\<bar> > threshold) \<Longrightarrow> scanForward cd i s = k"
proof (induction cd i s rule: scanForward.induct)
  case (1 cd i s)
  show ?case
  proof (cases "i = k")
    case True
    with "1.prems" show ?thesis by (subst scanForward.simps) simp
  next
    case False
    with "1.prems" have lt: "i < k" and il: "i < length cd" by simp_all
    with "1.prems" have q: "\<not> \<bar>cd ! i\<bar> > threshold" by simp
    have "scanForward cd (Suc i) s = k"
      using "1.IH" [OF il q] "1.prems" lt by simp
    with il q show ?thesis by (subst scanForward.simps) simp
  qed
qed

lemma scanBackward_quiet:
  "(\<forall>j<k. \<not> \<bar>cd ! j\<bar> > threshold) \<Longrightarrow> scanBackward cd k e = e"
  by (induction k) simp_all

lemma scanBackward_found:
  "m < k \<Longrightarrow> \<bar>cd ! m\<bar> > threshold \<Longrightarrow>
   (\<forall>j. m < j \<and> j < k \<longrightarrow> \<not> \<bar>cd ! j\<bar> > threshold) \<Longrightarrow> scanBackward cd k e = Suc m"
proof (induction k)
  case 0
  then show ?case by simp
next
  case (Suc k)
  show ?case
  proof (cases "m = k")
    case True
    with Suc.prems show ?thesis by simp
  next
    case False
    with Suc.prems have "m < k" and "\<not> \<bar>cd ! k\<bar> > threshold" by simp_all
    with Suc show ?thesis by simp
  qed
qed

lemma trim_bounds_quiet:
  assumes "\<forall>x\<in>set cd. \<not> \<bar>x\<bar> > threshold"
  shows "trimStart cd = 0" and "trimEnd cd = length cd"
  using assms by (simp_all add: trimStart_def trimEnd_def scanForward_quiet scanBackward_quiet)

lemma trim_bounds_loud:
  assumes "\<exists>x\<in>set cd. \<bar>x\<bar> > threshold"
  shows "trimStart cd < trimEnd cd \<and> trimEnd cd \<le> length cd
         \<and> \<bar>cd ! trimStart cd\<bar> > threshold \<and> \<bar>cd ! (trimEnd cd - 1)\<bar> > threshold"
proof -
  let ?P = "\<lambda>j. j < length cd \<and> \<bar>cd ! j\<bar> > threshold"
  from assms obtain j0 where j0: "?P j0" by (auto simp: in_set_conv_nth)
  define s where "s = (LEAST j. ?P j)"
  have s: "?P s" unfolding s_def using j0 by (rule LeastI)
  have smin: "\<And>j. j < s \<Longrightarrow> \<not> ?P j" unfolding s_def by (rule not_less_Least)
  define m where "m = (GREATEST j. ?P j)"
  have m: "?P m" unfolding m_def using j0 by (rule GreatestI_nat [where b = "length cd"]) simp
  have mmax: "\<And>j. ?P j \<Longrightarrow> j \<le> m" unfolding m_def
    by (rule Greatest_le_nat [where b = "length cd"]) simp_all
  have "trimStart cd = s"
    unfolding trimStart_def using s smin by (intro scanForward_found) auto
  moreover have "trimEnd cd = Suc m"
    unfolding trimEnd_def using m mmax by (intro scanBackward_found) (auto simp: not_le [symmetric])
  moreover have "s \<le> m" using s mmax by simp
  ultimately show ?thesis using s m by simp
qed

lemma trimStart_first_loud:
  "0 < length cd \<Longrightarrow> \<bar>cd ! 0\<bar> > threshold \<Longrightarrow> trimStart cd = 0"
  unfolding trimStart_def by (rule scanForward_found) simp_all

lemma trimEnd_last_loud:
  assumes "0 < length cd" and "\<bar>cd ! (length cd - 1)\<bar> > threshold"
  shows "trimEnd cd = length cd"
proof -
  have "scanBackward cd (length cd) (length cd) = Suc (length cd - 1)"
  proof (rule scanBackward_found)
    show "length cd - 1 < length cd" using assms(1) by arith
    show "\<bar>cd ! (length cd - 1)\<bar> > threshold" by (rule assms(2))
    show "\<forall>j. length cd - 1 < j \<and> j < length cd \<longrightarrow> \<not> \<bar>cd ! j\<bar> > threshold" by arith
  qed
  with assms(1) show ?thesis by (simp add: trimEnd_def)
qed

lemma copyChannel_all: "copyChannel 0 (length c) c = c"
  by (simp add: copyChannel_def map_nth)

lemma length_copyChannel [simp]: "length (copyChannel s n c) = n"
  by (simp add: copyChannel_def)

lemma wf_hd: "wf_buffer b \<Longrightarrow> getChannelData b 0 = Inr (hd (channels b))"
  by (cases "channels b") (simp_all add: wf_buffer_def getChannelData_def numberOfChannels_def)

lemma wf_len: "wf_buffer b \<Longrightarrow> c \<in> set (channels b) \<Longrightarrow> length c = length (hd (channels b))"
  by (cases "channels b") (auto simp: wf_buffer_def buffer_length_def list_all_iff)

lemma trim_fixpoint:
  assumes wf: "wf_buffer b"
    and fx: "trimStart (hd (channels b)) = 0" "trimEnd (hd (channels b)) = length (hd (channels b))"
  shows "trimAudioBuffer b = Inr b"
proof (cases "length (hd (channels b)) = 0")
  case True
  with fx wf_hd [OF wf] show ?thesis by (simp add: trimAudioBuffer_def)
next
  case False
  from wf have ne: "channels b \<noteq> []" by (simp add: wf_buffer_def)
  have "map (copyChannel 0 (length (hd (channels b)))) (channels b) = channels b"
  proof (rule map_idI)
    fix c assume "c \<in> set (channels b)"
    then have "length c = length (hd (channels b))" by (rule wf_len [OF wf])
    then show "copyChannel 0 (length (hd (channels b))) c = c"
      using copyChannel_all [of c] by simp
  qed
  with False fx wf_hd [OF wf] ne show ?thesis
    by (simp add: trimAudioBuffer_def createBuffer_def numberOfChannels_def)
qed

lemma trim_loud:
  assumes wf: "wf_buffer b" and loud: "\<exists>x\<in>set (hd (channels b)). \<bar>x\<bar> > threshold"
  shows "trimAudioBuffer b =
     Inr \<lparr>channels = map (copyChannel (trimStart (hd (channels b)))
                          (trimEnd (hd (channels b)) - trimStart (hd (channels b)))) (channels b),
          sampleRate = sampleRate b\<rparr>"
proof -
  from wf have ne: "channels b \<noteq> []" by (simp add: wf_buffer_def)
  from trim_bounds_loud [OF loud] wf_hd [OF wf] ne show ?thesis
    by (simp add: trimAudioBuffer_def createBuffer_def numberOfChannels_def Let_def)
qed

lemma trim_loud_ends:
  assumes wf: "wf_buffer b" and ld: "\<exists>x\<in>set (hd (channels b)). \<bar>x\<bar> > threshold"
  shows "\<exists>b'. trimAudioBuffer b = Inr b' \<and> wf_buffer b' \<and> 0 < buffer_length b'
           \<and> \<bar>hd (hd (channels b'))\<bar> > threshold \<and> \<bar>last (hd (channels b'))\<bar> > threshold"
proof -
  let ?cd = "hd (channels b)"
  let ?s = "trimStart ?cd" let ?e = "trimEnd ?cd"
  let ?b' = "\<lparr>channels = map (copyChannel ?s (?e - ?s)) (channels b), sampleRate = sampleRate b\<rparr>"
  from wf have ne: "channels b \<noteq> []" by (simp add: wf_buffer_def)
  note bd = trim_bounds_loud [OF ld]
  have t: "trimAudioBuffer b = Inr ?b'" by (rule trim_loud [OF wf ld])
  have wf': "wf_buffer ?b'" using ne
    by (cases "channels b") (simp_all add: wf_buffer_def buffer_length_def list_all_iff)
  have hd': "hd (channels ?b') = copyChannel ?s (?e - ?s) ?cd" using ne by (simp add: hd_map)
  have len: "buffer_length ?b' = ?e - ?s" using ne
    by (cases "channels b") (simp_all add: buffer_length_def)
  have pos: "0 < length (copyChannel ?s (?e - ?s) ?cd)" using bd by simp
  have first: "\<bar>copyChannel ?s (?e - ?s) ?cd ! 0\<bar> > threshold"
    using bd by (simp add: copyChannel_def)
  have last: "\<bar>copyChannel ?s (?e - ?s) ?cd ! (?e - ?s - 1)\<bar> > threshold"
  proof -
    from bd have "?e - ?s - 1 < ?e - ?s" and "?s + (?e - ?s - 1) = ?e - 1" by arith+
    with bd show ?thesis by (simp add: copyChannel_def del: One_nat_def)
  qed
  have nonempty: "copyChannel ?s (?e - ?s) ?cd \<noteq> []"
    using pos unfolding length_greater_0_conv .
  have h: "\<bar>hd (hd (channels ?b'))\<bar> > threshold"
    using first nonempty unfolding hd' by (simp add: hd_conv_nth)
  have l: "\<bar>last (hd (channels ?b'))\<bar> > threshold"
    using last nonempty unfolding hd' by (simp add: last_conv_nth)
  from t wf' len bd h l show ?thesis by simp
qed

lemma trim_ends_fixpoint:
  assumes wf: "wf_buffer b" and pos: "0 < buffer_length b"
    and h: "\<bar>hd (hd (channels b))\<bar> > threshold" and l: "\<bar>last (hd (channels b))\<bar> > threshold"
  shows "trimAudioBuffer b = Inr b"
proof -
  from wf have ne: "channels b \<noteq> []" by (simp add: wf_buffer_def)
  from ne pos have cpos: "0 < length (hd (channels b))"
    by (cases "channels b") (simp_all add: buffer_length_def)
  then have cne: "hd (channels b) \<noteq> []" by auto
  have "trimStart (hd (channels b)) = 0"
    using cpos h cne by (intro trimStart_first_loud) (simp_all add: hd_conv_nth)
  moreover have "trimEnd (hd (channels b)) = length (hd (channels b))"
    using cpos l cne by (intro trimEnd_last_loud) (simp_all add: last_conv_nth)
  ultimately show ?thesis using wf by (intro trim_fixpoint)
qed

lemma trim_quiet:
  assumes wf: "wf_buffer b" and q: "\<forall>x\<in>set (hd (channels b)). \<not> \<bar>x\<bar> > threshold"
  shows "trimAudioBuffer b = Inr b"
  using wf trim_bounds_quiet [OF q] by (intro trim_fixpoint)

lemma trim_empty_range:
  assumes wf: "wf_buffer b" and le: "trimEnd (hd (channels b)) \<le> trimStart (hd (channels b))"
  shows "trimAudioBuffer b = Inr b"
  using wf_hd [OF wf] le by (simp add: trimAudioBuffer_def)

text \<open>
  C7: trimming is idempotent. For every well-formed buffer the trimmer returns a buffer,
  and trimming that buffer again returns it unchanged. When some sample of channel 0 is
  above the threshold, the first and the last sample of channel 0 of the trimmed buffer
  are above it, which is why the second scan finds nothing to cut; a buffer with no such
  sample comes back as it was.
\<close>

theorem trim_idempotent:
  assumes "wf_buffer b"
  shows "\<exists>b'. trimAudioBuffer b = Inr b' \<and> trimAudioBuffer b' = Inr b'
          \<and> ((\<exists>x\<in>set (hd (channels b)). \<bar>x\<bar> > threshold) \<longrightarrow>
                 \<bar>hd (hd (channels b'))\<bar> > threshold \<and> \<bar>last (hd (channels b'))\<bar> > threshold)"
proof (cases "\<exists>x\<in>set (hd (channels b)). \<bar>x\<bar> > threshold")
  case False
  then have "trimAudioBuffer b = Inr b" using assms by (intro trim_quiet) simp_all
  with False show ?thesis by simp
next
  case True
  from trim_loud_ends [OF assms True] obtain b' where b': "trimAudioBuffer b = Inr b'"
    "wf_buffer b'" "0 < buffer_length b'" "\<bar>hd (hd (channels b'))\<bar> > threshold"
    "\<bar>last (hd (channels b'))\<bar> > threshold" by blast
  then have "trimAudioBuffer b' = Inr b'" by (intro trim_ends_fixpoint)
  with b' show ?thesis by blast
qed

theorem trim_idempotent_witness:
  "wf_buffer paddedBuffer \<and> (\<exists>x\<in>set (hd (channels paddedBuffer)). \<bar>x\<bar> > threshold)
   \<and> (\<exists>b'. trimAudioBuffer paddedBuffer = Inr b' \<and> trimAudioBuffer b' = Inr b'
          \<and> \<bar>hd (hd (channels b'))\<bar> > threshold \<and> \<bar>last (hd (channels b'))\<bar> > threshold)"
proof -
  have wf: "wf_buffer paddedBuffer"
    by (simp add: wf_buffer_def paddedBuffer_def buffer_length_def)
  have ld: "\<exists>x\<in>set (hd (channels paddedBuffer)). \<bar>x\<bar> > threshold"
    by (simp add: paddedBuffer_def threshold_def)
  from trim_idempotent [OF wf] ld wf show ?thesis by blast
qed

text \<open>
  C8: a well-formed buffer whose channel 0 has no sample above the threshold, or for which
  the computed end is not beyond the computed start, is returned as it is; and whatever
  the trimmer returns is either the buffer it was given or a buffer of positive length.
\<close>

theorem trim_quiet_unchanged:
  assumes "wf_buffer b"
  shows "(\<exists>b'. trimAudioBuffer b = Inr b' \<and> (b' = b \<or> 0 < buffer_length b'))
         \<and> ((\<forall>x\<in>set (hd (channels b)). \<not> \<bar>x\<bar> > threshold) \<longrightarrow> trimAudioBuffer b = Inr b)
         \<and> (trimEnd (hd (channels b)) \<le> trimStart (hd (channels b)) \<longrightarrow> trimAudioBuffer b = Inr b)"
proof -
  have 1: "\<exists>b'. trimAudioBuffer b = Inr b' \<and> (b' = b \<or> 0 < buffer_length b')"
  proof (cases "\<exists>x\<in>set (hd (channels b)). \<bar>x\<bar> > threshold")
    case False
    then have "trimAudioBuffer b = Inr b" using assms by (intro trim_quiet) simp_all
    then show ?thesis by simp
  next
    case True
    from trim_loud_ends [OF assms True] show ?thesis by blast
  qed
  have 2: "(\<forall>x\<in>set (hd (channels b)). \<not> \<bar>x\<bar> > threshold) \<longrightarrow> trimAudioBuffer b = Inr b"
    using assms by (auto intro: trim_quiet)
  have 3: "trimEnd (hd (channels b)) \<le> trimStart (hd (channels b)) \<longrightarrow> trimAudioBuffer b = Inr b"
    using assms by (auto intro: trim_empty_range)
  from 1 2 3 show ?thesis by blast
qed

theorem trim_quiet_unchanged_witness:
  "wf_buffer quietBuffer \<and> list_all (\<lambda>x. \<not> \<bar>x\<bar> > threshold) (hd (channels quietBuffer))
   \<and> trimAudioBuffer quietBuffer = Inr quietBuffer"
proof -
  have wf: "wf_buffer quietBuffer"
    by (simp add: wf_buffer_def quietBuffer_def buffer_length_def)
  have q: "\<forall>x\<in>set (hd (channels quietBuffer)). \<not> \<bar>x\<bar> > threshold"
    by (simp add: quietBuffer_def threshold_def)
  from trim_quiet_unchanged [OF wf] q wf show ?thesis by (simp add: list_all_iff)
qed

subsection \<open>The WAV container\<close>

lemma list_update_Cons_numeral:
  "(x # xs)[numeral k := y] = x # xs[pred_numeral k := y]"
  by (simp add: numeral_eq_Suc)

lemma replicate_numeral:
  "replicate (numeral k) x = x # replicate (pred_numeral k) x"
  by (simp add: numeral_eq_Suc)

lemma zeros44: "replicate (44 + n) (0::byte) = replicate 44 0 @ replicate n 0"
  by (simp add: replicate_add)

lemma pcmToWav_layout:
  "pcmToWav pcm rate = Some \<lparr>blob_bytes = wav_header rate (length pcm) @ pcm, blob_type = ''audio/wav''\<rparr>"
  unfolding pcmToWav_def Let_def zeros44
  by (simp add: replicate_numeral setUint8_def setUint16_def setUint32_def list_update_Cons_numeral
      typedArraySet_def wav_header_def le16_def le32_def)

lemma le16_value:
  assumes "v < 65536"
  shows "unat (of_nat v :: byte) + 256 * unat (of_nat (v div 256) :: byte) = v"
proof -
  have "v div 256 < 256" using assms by simp
  then have "v div 256 mod 256 = v div 256" by simp
  then show ?thesis by (simp add: unat_of_nat)
qed

lemma le32_value:
  assumes "v < 4294967296"
  shows "unat (of_nat v :: byte) + 256 * unat (of_nat (v div 256) :: byte)
         + 65536 * unat (of_nat (v div 65536) :: byte)
         + 16777216 * unat (of_nat (v div 16777216) :: byte) = v"
proof -
  have a: "v div 16777216 mod 256 = v div 16777216" using assms by simp
  have b: "v div 65536 = (v div 256) div 256" "v div 16777216 = ((v div 256) div 256) div 256"
    by (simp_all add: div_mult2_eq [symmetric])
  define q1 where "q1 = v div 256"
  define q2 where "q2 = q1 div 256"
  define q3 where "q3 = q2 div 256"
  have "v = v mod 256 + 256 * q1" by (simp add: q1_def)
  moreover have "q1 = q1 mod 256 + 256 * q2" by (simp add: q2_def)
  moreover have "q2 = q2 mod 256 + 256 * q3" by (simp add: q3_def)
  moreover have "q3 mod 256 = q3" using a b by (simp add: q1_def q2_def q3_def)
  ultimately have "v mod 256 + 256 * (q1 mod 256) + 65536 * (q2 mod 256) + 16777216 * (q3 mod 256) = v"
    by linarith
  then show ?thesis by (simp add: unat_of_nat b q1_def q2_def q3_def)
qed

lemma length_wav_header: "length (wav_header rate n) = 44"
  by (simp add: wav_header_def le16_def le32_def)

lemma decode_header:
  assumes "36 + length pcm < 4294967296" and "rate * 2 < 4294967296"
  shows "spec_decodeWav (wav_header rate (length pcm) @ pcm) =
     Some \<lparr>wav_riffSize = 36 + length pcm, wav_fmtSize = 16, wav_format = 1, wav_channels = 1,
           wav_sampleRate = rate, wav_byteRate = rate * 1 * 16 div 8, wav_blockAlign = 1 * 16 div 8,
           wav_bitsPerSample = 16, wav_dataSize = length pcm, wav_data = pcm\<rparr>"
proof -
  let ?bs = "wav_header rate (length pcm) @ pcm"
  have r: "rate < 4294967296" and n: "length pcm < 4294967296" 
    and br: "rate * 1 * 16 div 8 < 4294967296" using assms by simp_all
  have f4: "getUint32LE ?bs 4 = 36 + length pcm"
    using le32_value [OF assms(1)] by (simp add: getUint32LE_def wav_header_def le32_def le16_def)
  have f16: "getUint32LE ?bs 16 = 16"
    by (simp add: getUint32LE_def wav_header_def le32_def le16_def)
  have f20: "getUint16LE ?bs 20 = 1"
    by (simp add: getUint16LE_def wav_header_def le32_def le16_def)
  have f22: "getUint16LE ?bs 22 = 1"
    by (simp add: getUint16LE_def wav_header_def le32_def le16_def)
  have f24: "getUint32LE ?bs 24 = rate"
    using le32_value [OF r] by (simp add: getUint32LE_def wav_header_def le32_def le16_def)
  have f28: "getUint32LE ?bs 28 = rate * 1 * 16 div 8"
    using le32_value [OF br] by (simp add: getUint32LE_def wav_header_def le32_def le16_def)
  have f32: "getUint16LE ?bs 32 = 1 * 16 div 8"
    by (simp add: getUint16LE_def wav_header_def le32_def le16_def)
  have f34: "getUint16LE ?bs 34 = 16"
    by (simp add: getUint16LE_def wav_header_def le32_def le16_def)
  have f40: "getUint32LE ?bs 40 = length pcm"
    using le32_value [OF n] by (simp add: getUint32LE_def wav_header_def le32_def le16_def)
  have tags: "tag_at ?bs 0 ''RIFF''" "tag_at ?bs 8 ''WAVE''" "tag_at ?bs 12 ''fmt ''"
    "tag_at ?bs 36 ''data''"
    by (simp_all add: tag_at_def wav_header_def le32_def le16_def)
  have data: "take (length pcm) (drop 44 ?bs) = pcm"
    by (simp add: length_wav_header)
  show ?thesis
    unfolding spec_decodeWav_def f4 f16 f20 f22 f24 f28 f32 f34 f40 data
    using tags by (simp add: length_wav_header)
qed

text \<open>
  C9: for every PCM byte array and sample rate the encoder returns a blob of type
  \<open>audio/wav\<close> whose bytes are the 44-byte header of the specification followed by the PCM
  bytes unchanged. Reading the header back gives 36 + dataSize, 16, format 1, one
  channel, the sample rate, the byte rate, the block align, 16 bits and dataSize, and the
  data that follows is the PCM input, whenever the sizes fit their 32-bit fields; for the
  24 kHz call of \<^verbatim>\<open>generateSpeech\<close> the decoded rate is 24000 and the channel count 1.
\<close>

theorem pcmToWav_round_trip:
  "pcmToWav pcm rate =
     Some \<lparr>blob_bytes = wav_header rate (length pcm) @ pcm, blob_type = ''audio/wav''\<rparr>
   \<and> length (wav_header rate (length pcm)) = 44
   \<and> (36 + length pcm < 4294967296 \<and> rate * 2 < 4294967296 \<longrightarrow>
        spec_decodeWav (wav_header rate (length pcm) @ pcm) =
          Some \<lparr>wav_riffSize = 36 + length pcm, wav_fmtSize = 16, wav_format = 1,
                wav_channels = 1, wav_sampleRate = rate, wav_byteRate = rate * 1 * 16 div 8,
                wav_blockAlign = 1 * 16 div 8, wav_bitsPerSample = 16,
                wav_dataSize = length pcm, wav_data = pcm\<rparr>)
   \<and> (36 + length binaryString < 4294967296 \<longrightarrow>
        (\<exists>blob. speechToWav binaryString = Some blob
           \<and> map_option (\<lambda>w. (wav_sampleRate w, wav_channels w, wav_bitsPerSample w, wav_data w))
               (spec_decodeWav (blob_bytes blob))
             = Some (24000, 1, 16, map of_nat binaryString)))"
proof -
  have a: "pcmToWav pcm rate =
     Some \<lparr>blob_bytes = wav_header rate (length pcm) @ pcm, blob_type = ''audio/wav''\<rparr>"
    by (rule pcmToWav_layout)
  have b: "length (wav_header rate (length pcm)) = 44" by (rule length_wav_header)
  have c: "36 + length pcm < 4294967296 \<and> rate * 2 < 4294967296 \<longrightarrow>
        spec_decodeWav (wav_header rate (length pcm) @ pcm) =
          Some \<lparr>wav_riffSize = 36 + length pcm, wav_fmtSize = 16, wav_format = 1,
                wav_channels = 1, wav_sampleRate = rate, wav_byteRate = rate * 1 * 16 div 8,
                wav_blockAlign = 1 * 16 div 8, wav_bitsPerSample = 16,
                wav_dataSize = length pcm, wav_data = pcm\<rparr>"
    using decode_header [of pcm rate] by blast
  have d: "36 + length binaryString < 4294967296 \<longrightarrow>
        (\<exists>blob. speechToWav binaryString = Some blob
           \<and> map_option (\<lambda>w. (wav_sampleRate w, wav_channels w, wav_bitsPerSample w, wav_data w))
               (spec_decodeWav (blob_bytes blob))
             = Some (24000, 1, 16, map of_nat binaryString))"
  proof
    assume "36 + length binaryString < 4294967296"
    then have "36 + length (map of_nat binaryString :: byte list) < 4294967296" by simp
    from decode_header [OF this, of 24000] pcmToWav_layout [of "map of_nat binaryString" 24000]
    show "\<exists>blob. speechToWav binaryString = Some blob
           \<and> map_option (\<lambda>w. (wav_sampleRate w, wav_channels w, wav_bitsPerSample w, wav_data w))
               (spec_decodeWav (blob_bytes blob))
             = Some (24000, 1, 16, map of_nat binaryString)"
      by (simp add: speechToWav_def)
  qed
  from a b c d show ?thesis by blast
qed

theorem pcmToWav_round_trip_witness:
  "36 + length [1, 2, 254, 255 :: byte] < (4294967296 :: nat) \<and> (24000 :: nat) * 2 < 4294967296
   \<and> 36 + length [1, 2, 254, 255 :: nat] < (4294967296 :: nat)
   \<and> spec_decodeWav (wav_header 24000 4 @ [1, 2, 254, 255]) =
       Some \<lparr>wav_riffSize = 40, wav_fmtSize = 16, wav_format = 1, wav_channels = 1,
             wav_sampleRate = 24000, wav_byteRate = 48000, wav_blockAlign = 2,
             wav_bitsPerSample = 16, wav_dataSize = 4, wav_data = [1, 2, 254, 255]\<rparr>
   \<and> (\<exists>blob. speechToWav [1, 2, 254, 255] = Some blob
         \<and> map_option (\<lambda>w. (wav_sampleRate w, wav_channels w, wav_bitsPerSample w, wav_data w))
             (spec_decodeWav (blob_bytes blob))
           = Some (24000, 1, 16, [1, 2, 254, 255]))"
proof -
  have len: "length [1, 2, 254, 255 :: byte] = 4" "length [1, 2, 254, 255 :: nat] = 4"
    by simp_all
  show ?thesis
    using pcmToWav_round_trip [of "[1, 2, 254, 255]" 24000 "[1, 2, 254, 255]"]
    unfolding len by simp
qed

subsection \<open>The scheduler\<close>

lemma scheduleSegment_None:
  "scheduleSegment seg a st = (None, st') \<Longrightarrow> st' = st"
  by (auto simp: scheduleSegment_def Let_def split: option.splits if_splits)

lemma scheduleSegment_Some:
  "scheduleSegment seg a st = (Some i, st') \<Longrightarrow>
     si_safePlayAt i = max (si_idealStart i) (lastSegmentEndTime st + 0.1)
     \<and> lastSegmentEndTime st' = si_safePlayAt i + si_duration i"
  by (auto simp: scheduleSegment_def Let_def split: option.splits if_splits)

lemma scheduleAll_head:
  "fst (scheduleAll segs a st) \<noteq> [] \<Longrightarrow>
   si_safePlayAt (hd (fst (scheduleAll segs a st)))
     = max (si_idealStart (hd (fst (scheduleAll segs a st)))) (lastSegmentEndTime st + 0.1)"
proof (induction segs arbitrary: st)
  case Nil
  then show ?case by simp
next
  case (Cons seg rest)
  obtain r st1 where r: "scheduleSegment seg a st = (r, st1)" by (cases "scheduleSegment seg a st")
  obtain rs st2 where rs: "scheduleAll rest a st1 = (rs, st2)" by (cases "scheduleAll rest a st1")
  show ?case
  proof (cases r)
    case None
    with r have "st1 = st" by (simp add: scheduleSegment_None)
    with None r rs Cons.IH [of st] Cons.prems show ?thesis by simp
  next
    case (Some i)
    with r rs scheduleSegment_Some [of seg a st i st1] show ?thesis by simp
  qed
qed

lemma scheduleAll_adjacent:
  "Suc k < length (fst (scheduleAll segs a st)) \<Longrightarrow>
   si_safePlayAt (fst (scheduleAll segs a st) ! Suc k)
     = max (si_idealStart (fst (scheduleAll segs a st) ! Suc k))
           (si_safePlayAt (fst (scheduleAll segs a st) ! k)
              + si_duration (fst (scheduleAll segs a st) ! k) + 0.1)"
proof (induction segs arbitrary: st k)
  case Nil
  then show ?case by simp
next
  case (Cons seg rest)
  obtain r st1 where r: "scheduleSegment seg a st = (r, st1)" by (cases "scheduleSegment seg a st")
  obtain rs st2 where rs: "scheduleAll rest a st1 = (rs, st2)" by (cases "scheduleAll rest a st1")
  show ?case
  proof (cases r)
    case None
    with r have "st1 = st" by (simp add: scheduleSegment_None)
    with None r rs Cons.IH [of k st] Cons.prems show ?thesis by simp
  next
    case (Some i)
    note s = scheduleSegment_Some [of seg a st i st1]
    show ?thesis
    proof (cases k)
      case 0
      with Some r rs Cons.prems have ne: "fst (scheduleAll rest a st1) \<noteq> []" by auto
      from scheduleAll_head [OF ne] Some r rs s 0 ne show ?thesis
        by (simp add: hd_conv_nth)
    next
      case (Suc j)
      with Some r rs Cons.IH [of j st1] Cons.prems show ?thesis by simp
    qed
  qed
qed


lemma scheduleAll_cursor:
  "lastSegmentEndTime (snd (scheduleAll segs a st)) =
     (if fst (scheduleAll segs a st) = [] then lastSegmentEndTime st
      else si_safePlayAt (last (fst (scheduleAll segs a st)))
           + si_duration (last (fst (scheduleAll segs a st))))"
proof (induction segs arbitrary: st)
  case Nil
  then show ?case by simp
next
  case (Cons seg rest)
  obtain r st1 where r: "scheduleSegment seg a st = (r, st1)" by (cases "scheduleSegment seg a st")
  obtain rs st2 where rs: "scheduleAll rest a st1 = (rs, st2)" by (cases "scheduleAll rest a st1")
  show ?case
  proof (cases r)
    case None
    with r have "st1 = st" by (simp add: scheduleSegment_None)
    with None r rs Cons.IH [of st] show ?thesis by simp
  next
    case (Some i)
    with r rs scheduleSegment_Some [of seg a st i st1] Cons.IH [of st1] show ?thesis by simp
  qed
qed

lemma scheduleSegment_frame:
  "scheduleSegment seg a st = (r, st') \<Longrightarrow>
     audioBuffers st' = audioBuffers st \<and> audioContext st' = audioContext st
     \<and> masterDest st' = masterDest st \<and> monitorGain st' = monitorGain st
     \<and> video st' = video st \<and> recorder st' = recorder st \<and> segments st' = segments st
     \<and> status st' = status st \<and> timers st' = timers st \<and> downloads st' = downloads st
     \<and> alerts st' = alerts st"
  by (auto simp: scheduleSegment_def Let_def split: option.splits if_splits)


lemma scheduleSegment_ready:
  assumes "engineReady st"
  shows "fst (scheduleSegment seg a st) =
     (if hasBuffer st seg
      then Some \<lparr>si_id = seg_id seg, si_idealStart = startTime seg,
                 si_safePlayAt = max (startTime seg) (lastSegmentEndTime st + 0.1),
                 si_duration = bufferDuration st seg,
                 si_playAt = ctx_currentTime (the (audioContext st))
                             + max 0 (max (startTime seg) (lastSegmentEndTime st + 0.1) - a)\<rparr>
      else None)"
  using assms
  by (auto simp: scheduleSegment_def engineReady_def hasBuffer_def bufferDuration_def Let_def
      split: option.splits)

lemma scheduleAll_scheduled:
  assumes "engineReady st"
  shows "map si_id (fst (scheduleAll segs a st)) = map seg_id (filter (hasBuffer st) segs)
   \<and> map si_idealStart (fst (scheduleAll segs a st)) = map startTime (filter (hasBuffer st) segs)
   \<and> map si_duration (fst (scheduleAll segs a st)) = map (bufferDuration st) (filter (hasBuffer st) segs)"
  using assms
proof (induction segs arbitrary: st)
  case Nil
  then show ?case by simp
next
  case (Cons seg rest)
  obtain r st1 where r: "scheduleSegment seg a st = (r, st1)" by (cases "scheduleSegment seg a st")
  obtain rs st2 where rs: "scheduleAll rest a st1 = (rs, st2)" by (cases "scheduleAll rest a st1")
  note fr = scheduleSegment_frame [OF r]
  from fr Cons.prems have ready: "engineReady st1" by (simp add: engineReady_def)
  from fr have hb: "hasBuffer st1 = hasBuffer st" and bd: "bufferDuration st1 = bufferDuration st"
    by (auto simp: hasBuffer_def bufferDuration_def fun_eq_iff)
  from scheduleSegment_ready [OF Cons.prems, of seg a] r
  have rr: "r = (if hasBuffer st seg
      then Some \<lparr>si_id = seg_id seg, si_idealStart = startTime seg,
                 si_safePlayAt = max (startTime seg) (lastSegmentEndTime st + 0.1),
                 si_duration = bufferDuration st seg,
                 si_playAt = ctx_currentTime (the (audioContext st))
                             + max 0 (max (startTime seg) (lastSegmentEndTime st + 0.1) - a)\<rparr>
      else None)" by simp
  from Cons.IH [OF ready] rs hb bd r rr show ?case by simp
qed

lemma pass_frame_cursor0:
  "hasBuffer (st\<lparr>lastSegmentEndTime := c\<rparr>) = hasBuffer st"
  "bufferDuration (st\<lparr>lastSegmentEndTime := c\<rparr>) = bufferDuration st"
  "engineReady (st\<lparr>lastSegmentEndTime := c\<rparr>) = engineReady st"
  by (simp_all add: hasBuffer_def bufferDuration_def engineReady_def fun_eq_iff)

lemma gap_chain:
  fixes f d :: "nat \<Rightarrow> real"
  assumes adj: "\<And>k. Suc k < n \<Longrightarrow> f (Suc k) \<ge> f k + d k + g"
    and d: "\<And>k. k < n \<Longrightarrow> 0 \<le> d k" and g: "0 \<le> g"
  shows "i < j \<Longrightarrow> j < n \<Longrightarrow> f j \<ge> f i + d i + g"
proof (induction j)
  case 0
  then show ?case by simp
next
  case (Suc j)
  show ?case
  proof (cases "i = j")
    case True
    with adj [of j] Suc.prems show ?thesis by simp
  next
    case False
    with Suc.prems have "i < j" "j < n" by simp_all
    with Suc.IH have "f j \<ge> f i + d i + g" by simp
    moreover from adj [of j] Suc.prems have "f (Suc j) \<ge> f j + d j + g" by simp
    moreover from d [of j] \<open>j < n\<close> have "0 \<le> d j" by simp
    ultimately show ?thesis using g by linarith
  qed
qed

lemmas ev = scenario3_def mkSegment_def toneBuffer_def schedulingPass_def scheduleSegment_def
  duration_def buffer_length_def Let_def handleExport_def missingAudioIds_def initAudioContext_def
  stopAllAudio_def resumeContext_def playFullPreview_def videoOnPause_def stopNode_def
  editTranslatedText_def exportOnEnded_def videoDuration_def stopAndDetach_def recorderStop_def
  fireTimer_def

text \<open>
  C1, as the specification states it, fails on its own scenario: the cursor starts at 0 and
  the gap of 0.1 seconds is added to it for the first segment too, so the first clip of a
  pass never starts before 0.1 seconds.
\<close>

theorem scheduling_example_counterexample:
  "lastSegmentEndTime (scenario3\<lparr>lastSegmentEndTime := 0\<rparr>) = 0
   \<and> map startTime (sort_key startTime (segments scenario3)) = [0, 1, 1.05]
   \<and> map (bufferDuration scenario3) (sort_key startTime (segments scenario3)) = [1.2, 0.3, 0.5]
   \<and> map si_safePlayAt (fst (schedulingPass (segments scenario3) scenario3)) \<noteq> [0, 1.3, 1.6]"
  by (simp add: bufferDuration_def ev)

text \<open>
  C1 (amended): in a pass from anchor 0 with the cursor reset to 0, the scheduled segments
  are those with a buffer, in ascending order of start time; the safe play time of the
  first is the maximum of its start time and 0.1, and the safe play time of each later one
  is the maximum of its start time and the previous safe play time plus the previous
  buffer duration plus 0.1. For start times 0.0, 1.0, 1.05 and durations 1.2, 0.3, 0.5 the
  safe play times are 0.1, 1.4 and 1.8.
\<close>

theorem scheduling_pass_safe_times:
  "(engineReady st \<longrightarrow>
      map si_id (fst (schedulingPass segs st))
        = map seg_id (filter (hasBuffer st) (sort_key startTime segs))
      \<and> map si_idealStart (fst (schedulingPass segs st))
        = map startTime (filter (hasBuffer st) (sort_key startTime segs))
      \<and> map si_duration (fst (schedulingPass segs st))
        = map (bufferDuration st) (filter (hasBuffer st) (sort_key startTime segs)))
   \<and> (\<forall>i<length (fst (schedulingPass segs st)).
         si_safePlayAt (fst (schedulingPass segs st) ! i) =
           max (si_idealStart (fst (schedulingPass segs st) ! i))
               ((if i = 0 then 0
                 else si_safePlayAt (fst (schedulingPass segs st) ! (i - 1))
                      + si_duration (fst (schedulingPass segs st) ! (i - 1))) + 0.1))
   \<and> map si_safePlayAt (fst (schedulingPass (segments scenario3) scenario3)) = [0.1, 1.4, 1.8]"
proof -
  let ?st0 = "st\<lparr>lastSegmentEndTime := 0\<rparr>"
  let ?sorted = "sort_key startTime segs"
  have eq: "schedulingPass segs st = scheduleAll ?sorted 0 ?st0"
    by (simp add: schedulingPass_def)
  have a: "engineReady st \<longrightarrow>
      map si_id (fst (schedulingPass segs st)) = map seg_id (filter (hasBuffer st) ?sorted)
      \<and> map si_idealStart (fst (schedulingPass segs st))
        = map startTime (filter (hasBuffer st) ?sorted)
      \<and> map si_duration (fst (schedulingPass segs st))
        = map (bufferDuration st) (filter (hasBuffer st) ?sorted)"
  proof
    assume "engineReady st"
    then have "engineReady ?st0" by (simp add: pass_frame_cursor0)
    from scheduleAll_scheduled [OF this, of ?sorted 0]
    show "map si_id (fst (schedulingPass segs st)) = map seg_id (filter (hasBuffer st) ?sorted)
      \<and> map si_idealStart (fst (schedulingPass segs st))
        = map startTime (filter (hasBuffer st) ?sorted)
      \<and> map si_duration (fst (schedulingPass segs st))
        = map (bufferDuration st) (filter (hasBuffer st) ?sorted)"
      unfolding eq by (simp only: pass_frame_cursor0)
  qed
  have b: "\<forall>i<length (fst (schedulingPass segs st)).
         si_safePlayAt (fst (schedulingPass segs st) ! i) =
           max (si_idealStart (fst (schedulingPass segs st) ! i))
               ((if i = 0 then 0
                 else si_safePlayAt (fst (schedulingPass segs st) ! (i - 1))
                      + si_duration (fst (schedulingPass segs st) ! (i - 1))) + 0.1)"
  proof (intro allI impI)
    fix i assume i: "i < length (fst (schedulingPass segs st))"
    show "si_safePlayAt (fst (schedulingPass segs st) ! i) =
           max (si_idealStart (fst (schedulingPass segs st) ! i))
               ((if i = 0 then 0
                 else si_safePlayAt (fst (schedulingPass segs st) ! (i - 1))
                      + si_duration (fst (schedulingPass segs st) ! (i - 1))) + 0.1)"
    proof (cases i)
      case 0
      with i have ne: "fst (scheduleAll ?sorted 0 ?st0) \<noteq> []" unfolding eq by auto
      from scheduleAll_head [OF ne] 0 ne show ?thesis
        unfolding eq by (simp add: hd_conv_nth)
    next
      case (Suc k)
      with i have "Suc k < length (fst (scheduleAll ?sorted 0 ?st0))" unfolding eq by simp
      from scheduleAll_adjacent [OF this] Suc show ?thesis unfolding eq by simp
    qed
  qed
  have c: "map si_safePlayAt (fst (schedulingPass (segments scenario3) scenario3)) = [0.1, 1.4, 1.8]"
    by (simp add: schedulingPass_def scenario3_def mkSegment_def scheduleSegment_def toneBuffer_def
        duration_def buffer_length_def Let_def)
  from a b c show ?thesis by blast
qed

theorem scheduling_pass_safe_times_witness:
  "engineReady scenario3
   \<and> map si_id (fst (schedulingPass (segments scenario3) scenario3)) = [''seg-0'', ''seg-1'', ''seg-2'']
   \<and> map si_idealStart (fst (schedulingPass (segments scenario3) scenario3)) = [0, 1, 1.05]
   \<and> map si_duration (fst (schedulingPass (segments scenario3) scenario3)) = [1.2, 0.3, 0.5]
   \<and> Suc 0 < length (fst (schedulingPass (segments scenario3) scenario3))
   \<and> si_safePlayAt (fst (schedulingPass (segments scenario3) scenario3) ! Suc 0) = max 1 (0.1 + 1.2 + 0.1)"
proof -
  have r: "engineReady scenario3" by (simp add: engineReady_def scenario3_def)
  have s: "filter (hasBuffer scenario3) (sort_key startTime (segments scenario3)) = segments scenario3"
    by (simp add: hasBuffer_def scenario3_def mkSegment_def)
  have v: "map seg_id (segments scenario3) = [''seg-0'', ''seg-1'', ''seg-2'']"
    "map startTime (segments scenario3) = [0, 1, 1.05]"
    "map (bufferDuration scenario3) (segments scenario3) = [1.2, 0.3, 0.5]"
    by (simp_all add: scenario3_def mkSegment_def bufferDuration_def toneBuffer_def duration_def
        buffer_length_def)
  note t = scheduling_pass_safe_times [of scenario3 "segments scenario3"]
  from t r have m: "map si_id (fst (schedulingPass (segments scenario3) scenario3))
        = [''seg-0'', ''seg-1'', ''seg-2'']"
    "map si_idealStart (fst (schedulingPass (segments scenario3) scenario3)) = [0, 1, 1.05]"
    "map si_duration (fst (schedulingPass (segments scenario3) scenario3)) = [1.2, 0.3, 0.5]"
    "map si_safePlayAt (fst (schedulingPass (segments scenario3) scenario3)) = [0.1, 1.4, 1.8]"
    unfolding s v by blast+
  from m(1) have len: "length (fst (schedulingPass (segments scenario3) scenario3)) = 3"
    using length_map [of si_id "fst (schedulingPass (segments scenario3) scenario3)"] by simp
  from t len have rec: "si_safePlayAt (fst (schedulingPass (segments scenario3) scenario3) ! Suc 0) =
           max (si_idealStart (fst (schedulingPass (segments scenario3) scenario3) ! Suc 0))
               (si_safePlayAt (fst (schedulingPass (segments scenario3) scenario3) ! 0)
                      + si_duration (fst (schedulingPass (segments scenario3) scenario3) ! 0) + 0.1)"
    by simp
  have n: "si_idealStart (fst (schedulingPass (segments scenario3) scenario3) ! Suc 0) = 1"
    "si_safePlayAt (fst (schedulingPass (segments scenario3) scenario3) ! 0) = 0.1"
    "si_duration (fst (schedulingPass (segments scenario3) scenario3) ! 0) = 1.2"
    using m len
      nth_map [of "Suc 0" "fst (schedulingPass (segments scenario3) scenario3)" si_idealStart]
      nth_map [of 0 "fst (schedulingPass (segments scenario3) scenario3)" si_safePlayAt]
      nth_map [of 0 "fst (schedulingPass (segments scenario3) scenario3)" si_duration]
    by simp_all
  from r m len rec show ?thesis unfolding n by simp
qed

lemma scheduleSegment_node:
  assumes "scheduleSegment seg a st = (Some i, st')"
  shows "\<exists>n. sourceNodes st' = sourceNodes st @ [n] \<and> sn_startAt n = si_playAt i
           \<and> duration (sn_buffer n) = si_duration i \<and> \<not> sn_stopped n
           \<and> map_of (audioBuffers st) (seg_id seg) = Some (sn_buffer n)
           \<and> (\<forall>ctx. audioContext st = Some ctx \<longrightarrow>
                 si_playAt i = ctx_currentTime ctx + max 0 (si_safePlayAt i - a))"
  using assms
  by (auto simp: scheduleSegment_def Let_def split: option.splits if_splits)

lemma scheduleAll_nodes:
  "sourceNodes (snd (scheduleAll segs a st))
     = sourceNodes st @ drop (length (sourceNodes st)) (sourceNodes (snd (scheduleAll segs a st)))
   \<and> map sn_startAt (drop (length (sourceNodes st)) (sourceNodes (snd (scheduleAll segs a st))))
       = map si_playAt (fst (scheduleAll segs a st))
   \<and> map (\<lambda>n. duration (sn_buffer n))
         (drop (length (sourceNodes st)) (sourceNodes (snd (scheduleAll segs a st))))
       = map si_duration (fst (scheduleAll segs a st))
   \<and> list_all (\<lambda>n. \<not> sn_stopped n)
         (drop (length (sourceNodes st)) (sourceNodes (snd (scheduleAll segs a st))))
   \<and> map (\<lambda>n. Some (sn_buffer n))
         (drop (length (sourceNodes st)) (sourceNodes (snd (scheduleAll segs a st))))
       = map (\<lambda>s. map_of (audioBuffers st) (seg_id s))
           (filter (\<lambda>s. fst (scheduleSegment s a st) \<noteq> None) segs)
   \<and> (\<forall>ctx. audioContext st = Some ctx \<longrightarrow>
         list_all (\<lambda>x. si_playAt x = ctx_currentTime ctx + max 0 (si_safePlayAt x - a))
           (fst (scheduleAll segs a st)))"
proof (induction segs arbitrary: st)
  case Nil
  then show ?case by simp
next
  case (Cons seg rest)
  obtain r st1 where r: "scheduleSegment seg a st = (r, st1)" by (cases "scheduleSegment seg a st")
  obtain rs st2 where rs: "scheduleAll rest a st1 = (rs, st2)" by (cases "scheduleAll rest a st1")
  note fr = scheduleSegment_frame [OF r]
  have same: "\<And>s. (fst (scheduleSegment s a st1) \<noteq> None) = (fst (scheduleSegment s a st) \<noteq> None)"
    using fr by (auto simp: scheduleSegment_def Let_def split: option.splits)
  note ih = Cons.IH [of st1, unfolded rs fst_conv snd_conv]
  show ?case
  proof (cases r)
    case None
    with r have e: "st1 = st" by (simp add: scheduleSegment_None)
    from None r rs ih show ?thesis unfolding e by simp
  next
    case (Some i)
    from scheduleSegment_node [OF r [unfolded Some]]
    obtain n where n: "sourceNodes st1 = sourceNodes st @ [n]" "sn_startAt n = si_playAt i"
      "duration (sn_buffer n) = si_duration i" "\<not> sn_stopped n"
      "map_of (audioBuffers st) (seg_id seg) = Some (sn_buffer n)"
      "\<forall>ctx. audioContext st = Some ctx \<longrightarrow>
          si_playAt i = ctx_currentTime ctx + max 0 (si_safePlayAt i - a)"
      by blast
    define new where "new = drop (length (sourceNodes st1)) (sourceNodes st2)"
    from ih have ih1: "sourceNodes st2 = sourceNodes st1 @ new" by (simp add: new_def)
    with n(1) have st2: "sourceNodes st2 = sourceNodes st @ n # new" by simp
    then have d: "drop (length (sourceNodes st)) (sourceNodes st2) = n # new" by simp
    from fr have ab: "audioBuffers st1 = audioBuffers st" and ac: "audioContext st1 = audioContext st"
      by simp_all
    from ih have rest: "map sn_startAt new = map si_playAt rs"
      "map (\<lambda>n. duration (sn_buffer n)) new = map si_duration rs"
      "list_all (\<lambda>n. \<not> sn_stopped n) new"
      "map (\<lambda>n. Some (sn_buffer n)) new
         = map (\<lambda>s. map_of (audioBuffers st) (seg_id s))
             (filter (\<lambda>s. fst (scheduleSegment s a st) \<noteq> None) rest)"
      "\<forall>ctx. audioContext st = Some ctx \<longrightarrow>
         list_all (\<lambda>x. si_playAt x = ctx_currentTime ctx + max 0 (si_safePlayAt x - a)) rs"
      unfolding new_def [symmetric] same ab ac by blast+
    from r Some rs st2 n rest show ?thesis unfolding d by simp
  qed
qed

lemma scheduleAll_no_context:
  "audioContext st = None \<Longrightarrow> fst (scheduleAll segs a st) = []"
proof (induction segs arbitrary: st)
  case Nil
  show ?case by simp
next
  case (Cons seg rest)
  have r: "scheduleSegment seg a st = (None, st)"
    using Cons.prems by (simp add: scheduleSegment_def split: option.splits)
  obtain rs st2 where rs: "scheduleAll rest a st = (rs, st2)" by (cases "scheduleAll rest a st")
  from Cons.IH [OF Cons.prems] r rs show ?case by simp
qed

text \<open>
  C3: in a pass with the cursor reset to 0, the safe play time of each scheduled clip is
  at least its predecessor's safe play time plus the predecessor's buffer duration plus
  0.1 seconds, and with durations that are not negative the same holds for any two clips
  of the pass. The pass adds one source node per scheduled clip to the engine, started at
  the engine time \<open>currentTime + max 0 (safePlayAt - 0)\<close> with the segment's buffer and
  not stopped; with durations that are not negative, any later node of the pass starts at
  least 0.1 seconds after an earlier one has played its whole buffer, so no two clips
  that the pass starts overlap. The clips are the buffers of the segments that have one,
  in ascending order of start time.
\<close>

theorem no_overlap_min_gap:
  "(Suc i < length (fst (schedulingPass segs st)) \<longrightarrow>
      si_safePlayAt (fst (schedulingPass segs st) ! Suc i)
        \<ge> si_safePlayAt (fst (schedulingPass segs st) ! i)
          + si_duration (fst (schedulingPass segs st) ! i) + 0.1)
   \<and> (list_all (\<lambda>x. 0 \<le> si_duration x) (fst (schedulingPass segs st))
        \<and> i < j \<and> j < length (fst (schedulingPass segs st)) \<longrightarrow>
      si_safePlayAt (fst (schedulingPass segs st) ! j)
        \<ge> si_safePlayAt (fst (schedulingPass segs st) ! i)
          + si_duration (fst (schedulingPass segs st) ! i) + 0.1)
   \<and> (engineReady st \<longrightarrow>
        map si_id (fst (schedulingPass segs st))
          = map seg_id (filter (hasBuffer st) (sort_key startTime segs))
        \<and> map si_duration (fst (schedulingPass segs st))
          = map (bufferDuration st) (filter (hasBuffer st) (sort_key startTime segs)))
   \<and> sourceNodes (snd (schedulingPass segs st)) = sourceNodes st @ startedBy segs st
   \<and> map sn_startAt (startedBy segs st) = map si_playAt (fst (schedulingPass segs st))
   \<and> map (\<lambda>n. duration (sn_buffer n)) (startedBy segs st)
       = map si_duration (fst (schedulingPass segs st))
   \<and> list_all (\<lambda>n. \<not> sn_stopped n) (startedBy segs st)
   \<and> (engineReady st \<longrightarrow>
        map (\<lambda>n. Some (sn_buffer n)) (startedBy segs st)
          = map (\<lambda>s. map_of (audioBuffers st) (seg_id s))
              (filter (hasBuffer st) (sort_key startTime segs)))
   \<and> (audioContext st = Some ctx \<longrightarrow>
        list_all (\<lambda>x. si_playAt x = ctx_currentTime ctx + max 0 (si_safePlayAt x - 0))
          (fst (schedulingPass segs st)))
   \<and> (list_all (\<lambda>n. 0 \<le> duration (sn_buffer n)) (startedBy segs st)
        \<and> i < j \<and> j < length (startedBy segs st) \<longrightarrow>
      sn_startAt (startedBy segs st ! j)
        \<ge> sn_startAt (startedBy segs st ! i)
          + duration (sn_buffer (startedBy segs st ! i)) + 0.1)"
proof -
  let ?infos = "fst (schedulingPass segs st)"
  let ?new = "startedBy segs st"
  let ?st0 = "st\<lparr>lastSegmentEndTime := 0\<rparr>"
  let ?sorted = "sort_key startTime segs"
  have eq: "schedulingPass segs st = scheduleAll ?sorted 0 ?st0"
    by (simp add: schedulingPass_def)
  have adj: "\<And>k. Suc k < length ?infos \<Longrightarrow>
      si_safePlayAt (?infos ! Suc k) \<ge> si_safePlayAt (?infos ! k) + si_duration (?infos ! k) + 0.1"
  proof -
    fix k assume "Suc k < length ?infos"
    then have "Suc k < length (fst (scheduleAll ?sorted 0 ?st0))"
      unfolding eq .
    from scheduleAll_adjacent [OF this]
    show "si_safePlayAt (?infos ! Suc k) \<ge> si_safePlayAt (?infos ! k) + si_duration (?infos ! k) + 0.1"
      unfolding eq by simp
  qed
  have chain: "\<And>p q. (\<And>k. k < length ?infos \<Longrightarrow> 0 \<le> si_duration (?infos ! k)) \<Longrightarrow>
      p < q \<Longrightarrow> q < length ?infos \<Longrightarrow>
      si_safePlayAt (?infos ! q) \<ge> si_safePlayAt (?infos ! p) + si_duration (?infos ! p) + 0.1"
  proof -
    fix p q
    assume d: "\<And>k. k < length ?infos \<Longrightarrow> 0 \<le> si_duration (?infos ! k)"
      and pq: "p < q" and q: "q < length ?infos"
    show "si_safePlayAt (?infos ! q) \<ge> si_safePlayAt (?infos ! p) + si_duration (?infos ! p) + 0.1"
      by (rule gap_chain [where f = "\<lambda>k. si_safePlayAt (?infos ! k)"
            and d = "\<lambda>k. si_duration (?infos ! k)" and n = "length ?infos", OF adj d _ pq q]) simp_all
  qed
  have a: "Suc i < length ?infos \<longrightarrow>
      si_safePlayAt (?infos ! Suc i) \<ge> si_safePlayAt (?infos ! i) + si_duration (?infos ! i) + 0.1"
    using adj by blast
  have b: "list_all (\<lambda>x. 0 \<le> si_duration x) ?infos \<and> i < j \<and> j < length ?infos \<longrightarrow>
      si_safePlayAt (?infos ! j) \<ge> si_safePlayAt (?infos ! i) + si_duration (?infos ! i) + 0.1"
  proof
    assume h: "list_all (\<lambda>x. 0 \<le> si_duration x) ?infos \<and> i < j \<and> j < length ?infos"
    then have d: "\<And>k. k < length ?infos \<Longrightarrow> 0 \<le> si_duration (?infos ! k)"
      by (simp add: list_all_length)
    from h have ij: "i < j" and j: "j < length ?infos" by simp_all
    from chain [OF d ij j]
    show "si_safePlayAt (?infos ! j) \<ge> si_safePlayAt (?infos ! i) + si_duration (?infos ! i) + 0.1" .
  qed
  have c: "engineReady st \<longrightarrow>
        map si_id ?infos = map seg_id (filter (hasBuffer st) ?sorted)
        \<and> map si_duration ?infos = map (bufferDuration st) (filter (hasBuffer st) ?sorted)"
  proof
    assume "engineReady st"
    then have "engineReady ?st0" by (simp add: pass_frame_cursor0)
    from scheduleAll_scheduled [OF this, of ?sorted 0]
    show "map si_id ?infos = map seg_id (filter (hasBuffer st) ?sorted)
        \<and> map si_duration ?infos = map (bufferDuration st) (filter (hasBuffer st) ?sorted)"
      unfolding eq by (simp only: pass_frame_cursor0)
  qed
  note nd = scheduleAll_nodes [of ?sorted 0 ?st0]
  have sn: "sourceNodes ?st0 = sourceNodes st" "audioBuffers ?st0 = audioBuffers st"
    "audioContext ?st0 = audioContext st" by simp_all
  have nw: "?new = drop (length (sourceNodes ?st0)) (sourceNodes (snd (scheduleAll ?sorted 0 ?st0)))"
    by (simp add: startedBy_def eq)
  have d1: "sourceNodes (snd (schedulingPass segs st)) = sourceNodes st @ ?new"
    using nd unfolding nw eq sn by blast
  have d2: "map sn_startAt ?new = map si_playAt ?infos"
    using nd unfolding nw eq by blast
  have d3: "map (\<lambda>n. duration (sn_buffer n)) ?new = map si_duration ?infos"
    using nd unfolding nw eq by blast
  have d4: "list_all (\<lambda>n. \<not> sn_stopped n) ?new"
    using nd unfolding nw eq by blast
  have d5: "engineReady st \<longrightarrow>
        map (\<lambda>n. Some (sn_buffer n)) ?new
          = map (\<lambda>s. map_of (audioBuffers st) (seg_id s)) (filter (hasBuffer st) ?sorted)"
  proof
    assume "engineReady st"
    then have r0: "engineReady ?st0" by (simp add: pass_frame_cursor0)
    have f: "(\<lambda>s. fst (scheduleSegment s 0 ?st0) \<noteq> None) = hasBuffer st"
      using scheduleSegment_ready [OF r0, of _ 0]
      by (auto simp: fun_eq_iff pass_frame_cursor0)
    from nd show "map (\<lambda>n. Some (sn_buffer n)) ?new
          = map (\<lambda>s. map_of (audioBuffers st) (seg_id s)) (filter (hasBuffer st) ?sorted)"
      unfolding nw f sn by blast
  qed
  have d6: "audioContext st = Some ctx \<longrightarrow>
        list_all (\<lambda>x. si_playAt x = ctx_currentTime ctx + max 0 (si_safePlayAt x - 0)) ?infos"
    using nd unfolding eq sn by blast
  have d7: "list_all (\<lambda>n. 0 \<le> duration (sn_buffer n)) ?new \<and> i < j \<and> j < length ?new \<longrightarrow>
      sn_startAt (?new ! j) \<ge> sn_startAt (?new ! i) + duration (sn_buffer (?new ! i)) + 0.1"
  proof
    assume h: "list_all (\<lambda>n. 0 \<le> duration (sn_buffer n)) ?new \<and> i < j \<and> j < length ?new"
    from d2 have len: "length ?new = length ?infos" by (rule map_eq_imp_length_eq)
    from h len have ij: "i < j" and j: "j < length ?infos" and i: "i < length ?infos" by simp_all
    have st: "\<And>k. k < length ?infos \<Longrightarrow> sn_startAt (?new ! k) = si_playAt (?infos ! k)"
      using d2 len by (metis nth_map)
    have du: "\<And>k. k < length ?infos \<Longrightarrow> duration (sn_buffer (?new ! k)) = si_duration (?infos ! k)"
    proof -
      fix k assume k: "k < length ?infos"
      then have "map (\<lambda>n. duration (sn_buffer n)) ?new ! k = map si_duration ?infos ! k"
        using d3 by simp
      with k len show "duration (sn_buffer (?new ! k)) = si_duration (?infos ! k)" by simp
    qed
    from h len have nn: "\<And>k. k < length ?infos \<Longrightarrow> 0 \<le> si_duration (?infos ! k)"
      using du by (simp add: list_all_length)
    from j have ne: "fst (scheduleAll ?sorted 0 ?st0) \<noteq> []" unfolding eq by auto
    then obtain c where c: "audioContext st = Some c"
      using scheduleAll_no_context [of ?st0 ?sorted 0] by (cases "audioContext st") auto
    have pl: "\<And>k. k < length ?infos \<Longrightarrow>
        si_playAt (?infos ! k) = ctx_currentTime c + max 0 (si_safePlayAt (?infos ! k))"
      using nd c unfolding eq sn by (simp add: list_all_length)
    have s0: "0.1 \<le> si_safePlayAt (?infos ! 0)"
      using scheduleAll_head [OF ne] ne unfolding eq by (simp add: hd_conv_nth)
    have pos: "\<And>k. k < length ?infos \<Longrightarrow> 0 \<le> si_safePlayAt (?infos ! k)"
    proof -
      fix k assume k: "k < length ?infos"
      show "0 \<le> si_safePlayAt (?infos ! k)"
      proof (cases k)
        case 0
        with s0 show ?thesis by simp
      next
        case (Suc m)
        with k have k0: "0 < k" and l0: "0 < length ?infos" by linarith+
        from chain [OF nn k0 k] nn [OF l0] s0 show ?thesis by linarith
      qed
    qed
    from chain [OF nn ij j] pos [OF i] pos [OF j]
    have "ctx_currentTime c + max 0 (si_safePlayAt (?infos ! j))
       \<ge> ctx_currentTime c + max 0 (si_safePlayAt (?infos ! i)) + si_duration (?infos ! i) + 0.1"
      by simp
    then show "sn_startAt (?new ! j) \<ge> sn_startAt (?new ! i) + duration (sn_buffer (?new ! i)) + 0.1"
      unfolding st [OF i] st [OF j] du [OF i] pl [OF i] pl [OF j] .
  qed
  from a b c d1 d2 d3 d4 d5 d6 d7 show ?thesis by blast
qed

theorem no_overlap_min_gap_witness:
  "engineReady scenario3
   \<and> list_all (\<lambda>x. 0 \<le> si_duration x) (fst (schedulingPass (segments scenario3) scenario3))
   \<and> length (fst (schedulingPass (segments scenario3) scenario3)) = 3
   \<and> si_safePlayAt (fst (schedulingPass (segments scenario3) scenario3) ! Suc 0)
        \<ge> si_safePlayAt (fst (schedulingPass (segments scenario3) scenario3) ! 0)
          + si_duration (fst (schedulingPass (segments scenario3) scenario3) ! 0) + 0.1
   \<and> si_safePlayAt (fst (schedulingPass (segments scenario3) scenario3) ! 2)
        \<ge> si_safePlayAt (fst (schedulingPass (segments scenario3) scenario3) ! 0)
          + si_duration (fst (schedulingPass (segments scenario3) scenario3) ! 0) + 0.1
   \<and> map si_duration (fst (schedulingPass (segments scenario3) scenario3)) = [1.2, 0.3, 0.5]
   \<and> map sn_startAt (startedBy (segments scenario3) scenario3) = [5.1, 6.4, 6.8]
   \<and> map (\<lambda>n. duration (sn_buffer n)) (startedBy (segments scenario3) scenario3) = [1.2, 0.3, 0.5]
   \<and> list_all (\<lambda>n. 0 \<le> duration (sn_buffer n)) (startedBy (segments scenario3) scenario3)
   \<and> sn_startAt (startedBy (segments scenario3) scenario3 ! 2)
        \<ge> sn_startAt (startedBy (segments scenario3) scenario3 ! 0)
          + duration (sn_buffer (startedBy (segments scenario3) scenario3 ! 0)) + 0.1"
proof -
  let ?infos = "fst (schedulingPass (segments scenario3) scenario3)"
  let ?new = "startedBy (segments scenario3) scenario3"
  let ?ctx = "\<lparr>ctx_state = running, ctx_currentTime = 5\<rparr>"
  have r: "engineReady scenario3" by (simp add: engineReady_def scenario3_def)
  have cx: "audioContext scenario3 = Some ?ctx" by (simp add: scenario3_def)
  have e: "?infos =
   [\<lparr>si_id = ''seg-0'', si_idealStart = 0, si_safePlayAt = 0.1, si_duration = 1.2, si_playAt = 5.1\<rparr>,
    \<lparr>si_id = ''seg-1'', si_idealStart = 1, si_safePlayAt = 1.4, si_duration = 0.3, si_playAt = 6.4\<rparr>,
    \<lparr>si_id = ''seg-2'', si_idealStart = 1.05, si_safePlayAt = 1.8, si_duration = 0.5, si_playAt = 6.8\<rparr>]"
    by (simp add: ev)
  have l: "length ?infos = 3" and d: "list_all (\<lambda>x. 0 \<le> si_duration x) ?infos"
    and m: "map si_duration ?infos = [1.2, 0.3, 0.5]"
    and p: "map si_playAt ?infos = [5.1, 6.4, 6.8]"
    unfolding e by simp_all
  note t = no_overlap_min_gap [where i = 0 and j = 2 and st = scenario3
      and segs = "segments scenario3" and ctx = ?ctx]
  have w1: "si_safePlayAt (?infos ! Suc 0) \<ge> si_safePlayAt (?infos ! 0) + si_duration (?infos ! 0) + 0.1"
    using t l by simp
  have w2: "si_safePlayAt (?infos ! 2) \<ge> si_safePlayAt (?infos ! 0) + si_duration (?infos ! 0) + 0.1"
    using t l d by simp
  from t have n1: "map sn_startAt ?new = [5.1, 6.4, 6.8]"
    and n2: "map (\<lambda>n. duration (sn_buffer n)) ?new = [1.2, 0.3, 0.5]"
    unfolding m p by blast+
  from n1 have ln: "length ?new = 3" using length_map [of sn_startAt ?new] by simp
  have n3: "list_all (\<lambda>n. 0 \<le> duration (sn_buffer n)) ?new"
  proof -
    have "list_all (\<lambda>x. (0::real) \<le> x) (map (\<lambda>n. duration (sn_buffer n)) ?new)"
      unfolding n2 by simp
    then show ?thesis by (simp add: list_all_iff)
  qed
  have w3: "sn_startAt (?new ! 2) \<ge> sn_startAt (?new ! 0) + duration (sn_buffer (?new ! 0)) + 0.1"
    using t n3 ln by simp
  from r d l w1 w2 m n1 n2 n3 w3 show ?thesis by blast
qed

subsection \<open>Export and playback\<close>

lemma setSegment_maps:
  assumes "\<And>s. seg_id (f s) = seg_id s" "\<And>s. startTime (f s) = startTime s"
    "\<And>s. endTime (f s) = endTime s" "\<And>s. translatedText (f s) = translatedText s"
    "\<And>s. originalText (f s) = originalText s" "\<And>s. speakerLabel (f s) = speakerLabel s"
  shows "map seg_id (segments (setSegment sid f st)) = map seg_id (segments st)
    \<and> map startTime (segments (setSegment sid f st)) = map startTime (segments st)
    \<and> map endTime (segments (setSegment sid f st)) = map endTime (segments st)
    \<and> map translatedText (segments (setSegment sid f st)) = map translatedText (segments st)
    \<and> map originalText (segments (setSegment sid f st)) = map originalText (segments st)
    \<and> map speakerLabel (segments (setSegment sid f st)) = map speakerLabel (segments st)"
  using assms by (simp add: setSegment_def)

lemma kept_refl: "sessionKept st st" by (simp add: sessionKept_def)
lemma kept_trans: "sessionKept a b \<Longrightarrow> sessionKept b c \<Longrightarrow> sessionKept a c" by (simp add: sessionKept_def)

lemma kept_setSegment:
  assumes "\<And>s. seg_id (f s) = seg_id s" "\<And>s. startTime (f s) = startTime s"
    "\<And>s. endTime (f s) = endTime s" "\<And>s. translatedText (f s) = translatedText s"
    "\<And>s. originalText (f s) = originalText s" "\<And>s. speakerLabel (f s) = speakerLabel s"
  shows "sessionKept st (setSegment sid f st)"
  using setSegment_maps [OF assms, of sid st] by (simp add: sessionKept_def setSegment_def)

lemma kept_synthesizeMissing: "sessionKept st (synthesizeMissing synth segs st sid)"
proof -
  have a: "sessionKept st (setSegment sid (\<lambda>s. s\<lparr>isSynthesizing := Some True\<rparr>) st)"
    by (rule kept_setSegment) simp_all
  have b: "\<And>u st'. sessionKept st' (setSegment sid (\<lambda>s. s\<lparr>audioUrl := Some u, isSynthesizing := Some False\<rparr>) st')"
    by (rule kept_setSegment) simp_all
  have c: "\<And>st' x. sessionKept st' (st'\<lparr>audioBuffers := x\<rparr>)" by (simp add: sessionKept_def)
  show ?thesis
    unfolding synthesizeMissing_def Let_def
    by (auto split: option.splits sum.splits prod.splits intro: kept_refl a kept_trans [OF a b]
        kept_trans [OF a kept_trans [OF c b]])
qed

lemma buffers_synthesizeMissing:
  "k \<noteq> sid \<Longrightarrow> map_of (audioBuffers (synthesizeMissing synth segs st sid)) k = map_of (audioBuffers st) k"
  unfolding synthesizeMissing_def Let_def
  by (auto split: option.splits sum.splits prod.splits simp: setSegment_def update_conv')

lemma kept_foldl: "sessionKept st (foldl (synthesizeMissing synth segs) st ids)"
proof (induction ids arbitrary: st)
  case Nil
  show ?case by (simp add: kept_refl)
next
  case (Cons sid ids)
  from kept_synthesizeMissing [of st synth segs sid] Cons [of "synthesizeMissing synth segs st sid"]
  show ?case by (auto intro: kept_trans)
qed

lemma buffers_foldl:
  "k \<notin> set ids \<Longrightarrow>
   map_of (audioBuffers (foldl (synthesizeMissing synth segs) st ids)) k = map_of (audioBuffers st) k"
  by (induction ids arbitrary: st) (simp_all add: buffers_synthesizeMissing)


lemma kept_init: "audioContext st \<noteq> None \<Longrightarrow> sessionKept st (initAudioContext st)"
  by (auto simp: sessionKept_def initAudioContext_def split: option.splits)

lemma buffers_init: "audioBuffers (initAudioContext st) = audioBuffers st"
  by (auto simp: initAudioContext_def split: option.splits)

lemma kept_stopAll: "sessionKept st (stopAllAudio st)"
  by (simp add: sessionKept_def stopAllAudio_def)

lemma kept_resume: "sessionKept st (resumeContext st)"
  by (simp add: sessionKept_def resumeContext_def)

lemma missing_not_buffered:
  "map_of (audioBuffers st) k = Some b \<Longrightarrow> k \<notin> set (missingAudioIds st)"
  by (auto simp: missingAudioIds_def)

lemma handleExport_cases:
  assumes v: "video st = Some vidEl" and c: "audioContext st \<noteq> None"
    and m: "masterDest st" and s: "segments st \<noteq> []"
  shows "\<exists>st3. sessionKept st st3
     \<and> (\<forall>k b. map_of (audioBuffers st) k = Some b \<longrightarrow> map_of (audioBuffers st3) k = Some b)
     \<and> (\<not> v_captureStream vidEl \<and> \<not> v_mozCaptureStream vidEl \<longrightarrow>
          handleExport synth st =
            st3\<lparr>alerts := alerts st3 @ [''Browser capture not supported.''], status := COMPLETED\<rparr>)
     \<and> (v_captureStream vidEl \<or> v_mozCaptureStream vidEl \<longrightarrow>
          handleExport synth st =
            (let st5 = snd (schedulingPass (segments st)
                   (st3\<lparr>recorder := Some \<lparr>rec_mimeType = (if vp9Supported st3 then ''video/webm;codecs=vp9''
                                                           else ''video/webm''),
                                            rec_state = inactive\<rparr>,
                        monitorGain := map_option (\<lambda>g. 0) (monitorGain st3),
                        video := Some (vidEl\<lparr>v_currentTime := 0, v_muted := False\<rparr>)\<rparr>))
             in st5\<lparr>recorder := map_option (\<lambda>r. r\<lparr>rec_state := recording\<rparr>) (recorder st5),
                   video := map_option (\<lambda>v. v\<lparr>v_paused := False,
                                              v_onended := Some (lastSegmentEndTime st5)\<rparr>) (video st5)\<rparr>))"
proof -
  define st1 where "st1 = (if missingAudioIds st \<noteq> []
        then foldl (synthesizeMissing synth (segments st))
               (initAudioContext (st\<lparr>status := SYNTHESIZING\<rparr>)) (missingAudioIds st)
        else st)"
  define st2 where "st2 = initAudioContext (stopAllAudio (st1\<lparr>status := EXPORTING, isPlaying := False\<rparr>))"
  define st3 where "st3 = resumeContext st2"
  have k0: "sessionKept st (initAudioContext (st\<lparr>status := SYNTHESIZING\<rparr>))"
    using c kept_init [of "st\<lparr>status := SYNTHESIZING\<rparr>"] by (simp add: sessionKept_def)
  have k1: "sessionKept st st1"
    unfolding st1_def using k0 kept_foldl kept_refl by (auto intro: kept_trans)
  have b1: "\<And>k b. map_of (audioBuffers st) k = Some b \<Longrightarrow> map_of (audioBuffers st1) k = Some b"
    unfolding st1_def by (auto simp: buffers_foldl missing_not_buffered buffers_init)
  have k1': "sessionKept st1 (st1\<lparr>status := EXPORTING, isPlaying := False\<rparr>)" by (simp add: sessionKept_def)
  have c1: "audioContext (stopAllAudio (st1\<lparr>status := EXPORTING, isPlaying := False\<rparr>)) \<noteq> None"
    using k1 c by (simp add: sessionKept_def stopAllAudio_def)
  have k2: "sessionKept st st2"
    unfolding st2_def using k1 k1' kept_stopAll kept_init [OF c1] by (blast intro: kept_trans)
  have b2: "audioBuffers st2 = audioBuffers st1"
    by (simp add: st2_def buffers_init stopAllAudio_def)
  have k3: "sessionKept st st3" unfolding st3_def using k2 kept_resume by (blast intro: kept_trans)
  have b3: "audioBuffers st3 = audioBuffers st1" using b2 by (simp add: st3_def resumeContext_def)
  from k2 c m have g: "\<not> (audioContext st2 = None \<or> \<not> masterDest st2)" by (simp add: sessionKept_def)
  from k3 v have v3: "video st3 = Some vidEl" by (simp add: sessionKept_def)
  have unfold: "handleExport synth st =
     (if \<not> v_captureStream vidEl \<and> \<not> v_mozCaptureStream vidEl
      then st3\<lparr>alerts := alerts st3 @ [''Browser capture not supported.''], status := COMPLETED\<rparr>
      else
        let mimeType = (if vp9Supported st3 then ''video/webm;codecs=vp9'' else ''video/webm'');
            st4 = st3\<lparr>recorder := Some \<lparr>rec_mimeType = mimeType, rec_state = inactive\<rparr>,
                     monitorGain := map_option (\<lambda>g. 0) (monitorGain st3),
                     video := Some (vidEl\<lparr>v_currentTime := 0, v_muted := False\<rparr>)\<rparr>;
            st5 = snd (schedulingPass (segments st) st4);
            finalAudioEnd = lastSegmentEndTime st5
        in st5\<lparr>recorder := map_option (\<lambda>r. r\<lparr>rec_state := recording\<rparr>) (recorder st5),
              video := map_option (\<lambda>v. v\<lparr>v_paused := False,
                                         v_onended := Some finalAudioEnd\<rparr>) (video st5)\<rparr>)"
  proof -
    from c obtain c0 where c0: "audioContext st = Some c0" by auto
    from g obtain c2 where c2: "audioContext st2 = Some c2" and m2: "masterDest st2" by auto
    show ?thesis
      unfolding handleExport_def
      by (simp add: Let_def v c0 s st1_def [symmetric] st2_def [symmetric] st3_def [symmetric]
          c2 m2 v3)
  qed
  show ?thesis
    apply (rule exI [of _ st3])
    using k3 b1 unfolding b3 unfold by (simp add: Let_def)
qed

text \<open>
  C2, as stated, fails: without a capture API the export ends in the state \<open>COMPLETED\<close>,
  not \<open>ERROR\<close>.
\<close>

theorem export_without_capture_counterexample:
  "video noCapture \<noteq> None \<and> audioContext noCapture \<noteq> None \<and> segments noCapture \<noteq> []
   \<and> map_option v_captureStream (video noCapture) = Some False
   \<and> map_option v_mozCaptureStream (video noCapture) = Some False
   \<and> status (handleExport synthFails noCapture) \<noteq> ERROR"
  by (simp add: noCapture_def ev)

text \<open>
  C2 (amended): when the video element offers neither \<^verbatim>\<open>captureStream\<close> nor
  \<^verbatim>\<open>mozCaptureStream\<close>, an export of a session with segments and a set-up engine shows the
  message "Browser capture not supported.", ends in the state \<open>COMPLETED\<close>, creates no
  recorder, saves no file and sets no timer; the video element, the scheduler cursor,
  the identity, timing and text of the segments and every buffer the session had are as
  before.
\<close>

theorem export_without_capture:
  assumes "video st = Some vidEl" and "\<not> v_captureStream vidEl" and "\<not> v_mozCaptureStream vidEl"
    and "audioContext st \<noteq> None" and "masterDest st" and "segments st \<noteq> []"
  shows "status (handleExport synth st) = COMPLETED
    \<and> alerts (handleExport synth st) = alerts st @ [''Browser capture not supported.'']
    \<and> recorder (handleExport synth st) = recorder st
    \<and> downloads (handleExport synth st) = downloads st
    \<and> timers (handleExport synth st) = timers st
    \<and> video (handleExport synth st) = video st
    \<and> lastSegmentEndTime (handleExport synth st) = lastSegmentEndTime st
    \<and> map seg_id (segments (handleExport synth st)) = map seg_id (segments st)
    \<and> map startTime (segments (handleExport synth st)) = map startTime (segments st)
    \<and> map endTime (segments (handleExport synth st)) = map endTime (segments st)
    \<and> map translatedText (segments (handleExport synth st)) = map translatedText (segments st)
    \<and> (\<forall>k b. map_of (audioBuffers st) k = Some b \<longrightarrow>
          map_of (audioBuffers (handleExport synth st)) k = Some b)"
proof -
  from handleExport_cases [OF assms(1,4,5,6), of synth] assms(2,3)
  obtain st3 where k: "sessionKept st st3"
    and b: "\<forall>k b. map_of (audioBuffers st) k = Some b \<longrightarrow> map_of (audioBuffers st3) k = Some b"
    and e: "handleExport synth st =
            st3\<lparr>alerts := alerts st3 @ [''Browser capture not supported.''], status := COMPLETED\<rparr>"
    by blast
  from k b show ?thesis unfolding e by (simp add: sessionKept_def)
qed

theorem export_without_capture_witness:
  "map_option v_captureStream (video noCapture) = Some False
   \<and> map_option v_mozCaptureStream (video noCapture) = Some False
   \<and> audioContext noCapture \<noteq> None \<and> masterDest noCapture \<and> segments noCapture \<noteq> []
   \<and> status (handleExport synthFails noCapture) = COMPLETED
   \<and> alerts (handleExport synthFails noCapture) = [''Browser capture not supported.'']
   \<and> recorder (handleExport synthFails noCapture) = None
   \<and> downloads (handleExport synthFails noCapture) = []
   \<and> map seg_id (segments (handleExport synthFails noCapture)) = [''seg-0'', ''seg-1'', ''seg-2'']
   \<and> map_of (audioBuffers (handleExport synthFails noCapture)) ''seg-1'' = Some (toneBuffer 7200)"
proof -
  have v: "video noCapture = Some \<lparr>v_currentTime = 0, v_muted = False, v_paused = True,
              v_duration = Some 10, v_captureStream = False, v_mozCaptureStream = False,
              v_onended = None\<rparr>"
    by (simp add: noCapture_def)
  have h: "audioContext noCapture \<noteq> None" "masterDest noCapture" "segments noCapture \<noteq> []"
    by (simp_all add: noCapture_def scenario3_def)
  have i: "alerts noCapture = []" "recorder noCapture = None" "downloads noCapture = []"
    "map seg_id (segments noCapture) = [''seg-0'', ''seg-1'', ''seg-2'']"
    "map_of (audioBuffers noCapture) ''seg-1'' = Some (toneBuffer 7200)"
    by (simp_all add: noCapture_def scenario3_def mkSegment_def)
  from export_without_capture [OF v _ _ h, of synthFails] v h i show ?thesis by simp
qed



text \<open>
  C4 at a failing input: after the text of the second segment of the three-segment session
  is edited, its \<^verbatim>\<open>audioUrl\<close> is cleared but its decoded buffer is still in the buffer map,
  no id is missing for the export, and both the full preview and the export (with any
  synthesis service) play the buffer synthesized from the old text.
\<close>

theorem edit_keeps_stale_buffer:
  "map translatedText (segments edited) = [''marhaban'', ''ahlan'', ''marhaban'']
   \<and> map audioUrl (segments edited) = [Some ''blob:a'', None, Some ''blob:a'']
   \<and> map_of (audioBuffers edited) ''seg-1'' = Some (toneBuffer 7200)
   \<and> missingAudioIds edited = []
   \<and> map sn_buffer (sourceNodes (playFullPreview edited))
        = [toneBuffer 28800, toneBuffer 7200, toneBuffer 12000]
   \<and> map_of (audioBuffers (handleExport synth edited)) ''seg-1'' = Some (toneBuffer 7200)
   \<and> map sn_buffer (sourceNodes (handleExport synth edited))
        = [toneBuffer 28800, toneBuffer 7200, toneBuffer 12000]"
  by (simp add: edited_def ev)

text \<open>
  C5 at a failing input: a full preview is started, the video pauses (which sets
  \<^verbatim>\<open>isPlaying\<close> to false) while the three clips are still active, and the full preview
  is started again. The second pass schedules three more clips, none of the six is
  stopped, and the active map only tracks the new three. An export from the same state
  does stop the first three before it schedules.
\<close>

theorem full_preview_keeps_previous_instances:
  "\<not> isPlaying scenario3
   \<and> isPlaying (playFullPreview scenario3)
   \<and> activeSourceNodes (playFullPreview scenario3) = [(''seg-0'', 0), (''seg-1'', 1), (''seg-2'', 2)]
   \<and> \<not> isPlaying (videoOnPause (playFullPreview scenario3))
   \<and> activeSourceNodes (videoOnPause (playFullPreview scenario3))
        = [(''seg-0'', 0), (''seg-1'', 1), (''seg-2'', 2)]
   \<and> map sn_stopped (sourceNodes (playFullPreview (videoOnPause (playFullPreview scenario3))))
        = [False, False, False, False, False, False]
   \<and> activeSourceNodes (playFullPreview (videoOnPause (playFullPreview scenario3)))
        = [(''seg-0'', 3), (''seg-1'', 4), (''seg-2'', 5)]
   \<and> map sn_stopped (sourceNodes (handleExport synth (videoOnPause (playFullPreview scenario3))))
        = [True, True, True, False, False, False]"
  by (simp add: ev)

subsection \<open>The speaker map\<close>

lemma findIndex_VOICES:
  "findIndex (\<lambda>v. voice_id v = dv) VOICES =
     (if dv = ''Kore'' then 0 else if dv = ''Puck'' then 1 else if dv = ''Fenrir'' then 2
      else if dv = ''Charon'' then 3 else if dv = ''Zephyr'' then 4 else -1)"
  by (simp add: findIndex_def VOICES_def)

lemma findIndex_range:
  "-1 \<le> findIndex (\<lambda>v. voice_id v = dv) VOICES \<and> findIndex (\<lambda>v. voice_id v = dv) VOICES < 5"
  by (simp add: findIndex_VOICES)

lemma js_rem_nonneg: "0 \<le> a \<Longrightarrow> 0 < b \<Longrightarrow> js_rem a b = a mod b"
  by (cases "a = 0") (simp_all add: js_rem_def)

lemma voiceAt_rotate:
  assumes "0 < idx"
  shows "voiceAt (js_rem (findIndex (\<lambda>v. voice_id v = dv) VOICES + int idx) (int (length VOICES)))
         = Some (VOICES ! nat ((findIndex (\<lambda>v. voice_id v = dv) VOICES + int idx) mod 5))"
proof -
  have l: "int (length VOICES) = 5" by (simp add: VOICES_def)
  from assms findIndex_range [of dv]
  have nn: "0 \<le> findIndex (\<lambda>v. voice_id v = dv) VOICES + int idx" by linarith
  then have "js_rem (findIndex (\<lambda>v. voice_id v = dv) VOICES + int idx) 5
     = (findIndex (\<lambda>v. voice_id v = dv) VOICES + int idx) mod 5"
    by (simp add: js_rem_nonneg)
  then show ?thesis unfolding l by (simp add: voiceAt_def l)
qed

lemma objectSet_conv:
  "map_of (objectSet key v obj) x
     = (if x = key \<and> key \<noteq> ''__proto__'' then Some v else map_of obj x)"
  by (simp add: objectSet_def update_conv')

lemma assignVoices_step:
  "assignVoices dv (spk # rest) idx m
     = assignVoices dv rest (Suc idx) (objectSet spk (rotatedVoice dv idx) m)"
proof (cases "idx = 0")
  case True
  then show ?thesis by (simp add: rotatedVoice_def)
next
  case False
  then have "0 < idx" by simp
  from voiceAt_rotate [OF this, of dv] False show ?thesis
    by (simp add: rotatedVoice_def Let_def)
qed

lemma assignVoices_total:
  "distinct spks \<Longrightarrow>
   \<exists>m'. assignVoices dv spks idx m = Some m'
      \<and> (\<forall>k<length spks. spks ! k \<noteq> ''__proto__'' \<longrightarrow>
             map_of m' (spks ! k) = Some (rotatedVoice dv (idx + k)))
      \<and> (\<forall>x. x \<notin> set spks \<or> x = ''__proto__'' \<longrightarrow> map_of m' x = map_of m x)"
proof (induction spks arbitrary: idx m)
  case Nil
  then show ?case by simp
next
  case (Cons spk rest)
  from Cons.prems have d: "distinct rest" and n: "spk \<notin> set rest" by simp_all
  from Cons.IH [OF d, of "Suc idx" "objectSet spk (rotatedVoice dv idx) m"]
  obtain m' where m': "assignVoices dv rest (Suc idx) (objectSet spk (rotatedVoice dv idx) m) = Some m'"
    and v: "\<forall>k<length rest. rest ! k \<noteq> ''__proto__'' \<longrightarrow>
              map_of m' (rest ! k) = Some (rotatedVoice dv (Suc idx + k))"
    and o: "\<forall>x. x \<notin> set rest \<or> x = ''__proto__'' \<longrightarrow>
              map_of m' x = map_of (objectSet spk (rotatedVoice dv idx) m) x"
    by blast
  have "\<forall>k<length (spk # rest). (spk # rest) ! k \<noteq> ''__proto__'' \<longrightarrow>
          map_of m' ((spk # rest) ! k) = Some (rotatedVoice dv (idx + k))"
  proof (intro allI impI)
    fix k assume "k < length (spk # rest)" and np: "(spk # rest) ! k \<noteq> ''__proto__''"
    show "map_of m' ((spk # rest) ! k) = Some (rotatedVoice dv (idx + k))"
    proof (cases k)
      case 0
      with o n np show ?thesis by (simp add: objectSet_conv)
    next
      case (Suc j)
      with \<open>k < length (spk # rest)\<close> v np show ?thesis by simp
    qed
  qed
  moreover have "\<forall>x. x \<notin> set (spk # rest) \<or> x = ''__proto__'' \<longrightarrow> map_of m' x = map_of m x"
    using o by (auto simp: objectSet_conv)
  ultimately show ?case using m' by (simp only: assignVoices_step) blast
qed

lemma uniqueInOrder_foldl:
  "distinct acc \<Longrightarrow>
   foldl (\<lambda>acc x. if x \<in> set acc then acc else acc @ [x]) acc xs
     = acc @ rev (remdups (rev (filter (\<lambda>x. x \<notin> set acc) xs)))"
proof (induction xs arbitrary: acc)
  case Nil
  then show ?case by simp
next
  case (Cons x xs)
  show ?case
  proof (cases "x \<in> set acc")
    case True
    with Cons show ?thesis by simp
  next
    case False
    with Cons.prems have d: "distinct (acc @ [x])" by simp
    have f: "filter (\<lambda>y. y \<notin> set (acc @ [x])) xs = filter (\<lambda>y. y \<noteq> x) (filter (\<lambda>y. y \<notin> set acc) xs)"
      by (induction xs) auto
    have r: "\<And>ys. rev (remdups (rev ys @ [x])) = x # rev (remdups (rev (filter (\<lambda>y. y \<noteq> x) ys)))"
    proof -
      fix ys :: "'a list"
      have "remdups (zs @ [x]) = remdups (filter (\<lambda>y. y \<noteq> x) zs) @ [x]" for zs
        by (induction zs) auto
      from this [of "rev ys"] show "rev (remdups (rev ys @ [x])) = x # rev (remdups (rev (filter (\<lambda>y. y \<noteq> x) ys)))"
        by (simp add: rev_filter)
    qed
    have g: "(\<lambda>y. y \<noteq> x \<and> y \<notin> set acc) = (\<lambda>y. y \<notin> set acc \<and> y \<noteq> x)" by auto
    from Cons.IH [OF d] False show ?thesis by (simp add: f r g)
  qed
qed

lemma uniqueInOrder_eq: "uniqueInOrder xs = rev (remdups (rev xs))"
  using uniqueInOrder_foldl [of "[]" xs] by (simp add: uniqueInOrder_def)

lemma uniqueInOrder_distinct: "distinct (uniqueInOrder xs) \<and> set (uniqueInOrder xs) = set xs"
  by (simp add: uniqueInOrder_eq)

lemma voice_ids_distinct: "distinct (map voice_id VOICES) \<and> length (map voice_id VOICES) = 5"
  by (simp add: VOICES_def)

lemma findIndex_cases:
  "(0 \<le> findIndex (\<lambda>v. voice_id v = dv) VOICES \<and> findIndex (\<lambda>v. voice_id v = dv) VOICES < 5
      \<and> map voice_id VOICES ! nat (findIndex (\<lambda>v. voice_id v = dv) VOICES) = dv)
   \<or> (findIndex (\<lambda>v. voice_id v = dv) VOICES = -1 \<and> dv \<notin> set (map voice_id VOICES))"
  unfolding findIndex_VOICES by (simp add: VOICES_def)

lemma rotatedVoice_nth:
  "0 < k \<Longrightarrow> rotatedVoice dv k
     = map voice_id VOICES ! nat ((findIndex (\<lambda>v. voice_id v = dv) VOICES + int k) mod 5)"
proof -
  assume "0 < k"
  have "nat ((findIndex (\<lambda>v. voice_id v = dv) VOICES + int k) mod 5) < length VOICES"
    by (simp add: VOICES_def)
  with \<open>0 < k\<close> show ?thesis by (simp add: rotatedVoice_def)
qed

lemma rotation_injective:
  fixes d :: int
  assumes "k < j" and "j < 5"
  shows "nat ((d + int k) mod 5) \<noteq> nat ((d + int j) mod 5)"
proof
  assume "nat ((d + int k) mod 5) = nat ((d + int j) mod 5)"
  moreover have "0 \<le> (d + int k) mod 5" "0 \<le> (d + int j) mod 5" by simp_all
  ultimately have "(d + int j) mod 5 = (d + int k) mod 5" by linarith
  then have "5 dvd (d + int j) - (d + int k)" by (simp only: mod_eq_dvd_iff)
  then have "(5::int) dvd int j - int k" by simp
  moreover from assms have "0 < int j - int k" "int j - int k < 5" by simp_all
  ultimately show False by (auto dest: zdvd_imp_le)
qed

lemma rotated_distinct_lt:
  assumes kj: "k < j" and j: "j < 5"
  shows "rotatedVoice dv k \<noteq> rotatedVoice dv j"
proof -
  let ?d = "findIndex (\<lambda>v. voice_id v = dv) VOICES"
  let ?ids = "map voice_id VOICES"
  note vd = voice_ids_distinct
  from kj have j0: "0 < j" by simp
  have rj: "rotatedVoice dv j = ?ids ! nat ((?d + int j) mod 5)" by (rule rotatedVoice_nth [OF j0])
  have bj: "nat ((?d + int j) mod 5) < length ?ids" using vd by simp
  from findIndex_cases [of dv] show ?thesis
  proof
    assume A: "0 \<le> ?d \<and> ?d < 5 \<and> ?ids ! nat ?d = dv"
    have rk: "rotatedVoice dv k = ?ids ! nat ((?d + int k) mod 5)"
    proof (cases "k = 0")
      case True
      with A show ?thesis by (simp add: rotatedVoice_def)
    next
      case False
      then show ?thesis by (simp add: rotatedVoice_nth)
    qed
    have bk: "nat ((?d + int k) mod 5) < length ?ids" using vd by simp
    have ne: "nat ((?d + int k) mod 5) \<noteq> nat ((?d + int j) mod 5)"
      using kj j by (rule rotation_injective)
    from vd have dd: "distinct ?ids" by simp
    from nth_eq_iff_index_eq [OF dd bk bj] ne show ?thesis unfolding rk rj by blast
  next
    assume B: "?d = -1 \<and> dv \<notin> set ?ids"
    show ?thesis
    proof (cases "k = 0")
      case True
      from bj have "?ids ! nat ((?d + int j) mod 5) \<in> set ?ids" by (rule nth_mem)
      with B True show ?thesis unfolding rj by (auto simp: rotatedVoice_def)
    next
      case False
      then have rk: "rotatedVoice dv k = ?ids ! nat ((?d + int k) mod 5)"
        by (simp add: rotatedVoice_nth)
      have bk: "nat ((?d + int k) mod 5) < length ?ids" using vd by simp
      have ne: "nat ((?d + int k) mod 5) \<noteq> nat ((?d + int j) mod 5)"
        using kj j by (rule rotation_injective)
      from vd have dd: "distinct ?ids" by simp
      from nth_eq_iff_index_eq [OF dd bk bj] ne show ?thesis unfolding rk rj by blast
    qed
  qed
qed

lemma rotated_distinct:
  "k < 5 \<Longrightarrow> j < 5 \<Longrightarrow> k \<noteq> j \<Longrightarrow> rotatedVoice dv k \<noteq> rotatedVoice dv j"
  using rotated_distinct_lt [of k j dv] rotated_distinct_lt [of j k dv]
  by (cases "k < j") (auto simp: not_less le_less)

text \<open>
  C10: after an analysis of a loaded file has returned its segments, the detected speakers
  are the distinct speaker labels in order of first appearance. For every speaker whose
  label is not \<^verbatim>\<open>__proto__\<close> (an assignment under that name stores nothing in a plain
  object) the speaker map gives the first the default voice and the \<open>k\<close>-th, for \<open>k\<close>
  from 1, the voice at index (indexOf(default) + k) mod 5 of \<open>VOICES\<close>; with at most five
  speakers no two of them share a voice. The map is determined by the results and the
  default voice.
\<close>

theorem speaker_voice_assignment:
  assumes "fileLoaded st"
  shows "status (startAnalysis (Some results) st) = READY_TO_DUB
   \<and> segments (startAnalysis (Some results) st) = results
   \<and> detectedSpeakers (startAnalysis (Some results) st) = uniqueInOrder (map speakerLabel results)
   \<and> uniqueInOrder (map speakerLabel results) = rev (remdups (rev (map speakerLabel results)))
   \<and> distinct (detectedSpeakers (startAnalysis (Some results) st))
   \<and> set (detectedSpeakers (startAnalysis (Some results) st)) = set (map speakerLabel results)
   \<and> (\<forall>k<length (detectedSpeakers (startAnalysis (Some results) st)).
         detectedSpeakers (startAnalysis (Some results) st) ! k \<noteq> ''__proto__'' \<longrightarrow>
         map_of (speakerMap (startAnalysis (Some results) st)) (detectedSpeakers (startAnalysis (Some results) st) ! k)
           = Some (if k = 0 then defaultVoice st
                   else voice_id (VOICES ! nat ((findIndex (\<lambda>v. voice_id v = defaultVoice st) VOICES
                                                   + int k) mod 5))))
   \<and> (length (detectedSpeakers (startAnalysis (Some results) st)) \<le> 5 \<longrightarrow>
         inj_on (map_of (speakerMap (startAnalysis (Some results) st)))
                (set (detectedSpeakers (startAnalysis (Some results) st)) - {''__proto__''}))"
proof -
  let ?spk = "uniqueInOrder (map speakerLabel results)"
  let ?st' = "startAnalysis (Some results) st"
  have d: "distinct ?spk" and s: "set ?spk = set (map speakerLabel results)"
    using uniqueInOrder_distinct [of "map speakerLabel results"] by simp_all
  from assignVoices_total [OF d, of "defaultVoice st" 0 "[]"]
  obtain m' where m': "assignVoices (defaultVoice st) ?spk 0 [] = Some m'"
    and v: "\<forall>k<length ?spk. ?spk ! k \<noteq> ''__proto__'' \<longrightarrow>
              map_of m' (?spk ! k) = Some (rotatedVoice (defaultVoice st) k)"
    by auto
  have e: "?st' = (initAudioContext st)\<lparr>status := ANALYZING, segments := results,
                     detectedSpeakers := ?spk, speakerMap := m', status := READY_TO_DUB\<rparr>"
    using m' assms by (simp add: startAnalysis_def Let_def)
  have a: "status ?st' = READY_TO_DUB" "segments ?st' = results" "detectedSpeakers ?st' = ?spk"
    "speakerMap ?st' = m'"
    unfolding e by simp_all
  have inj: "length ?spk \<le> 5 \<longrightarrow> inj_on (map_of m') (set ?spk - {''__proto__''})"
  proof
    assume l: "length ?spk \<le> 5"
    show "inj_on (map_of m') (set ?spk - {''__proto__''})"
    proof (rule inj_onI)
      fix x y assume x: "x \<in> set ?spk - {''__proto__''}" and y: "y \<in> set ?spk - {''__proto__''}"
        and eq: "map_of m' x = map_of m' y"
      from x obtain k where k: "k < length ?spk" "?spk ! k = x" "?spk ! k \<noteq> ''__proto__''"
        by (auto simp: in_set_conv_nth)
      from y obtain j where j: "j < length ?spk" "?spk ! j = y" "?spk ! j \<noteq> ''__proto__''"
        by (auto simp: in_set_conv_nth)
      from v k j eq have "rotatedVoice (defaultVoice st) k = rotatedVoice (defaultVoice st) j"
        by auto
      moreover from k j l have "k < 5" "j < 5" by simp_all
      ultimately have "k = j" using rotated_distinct [of k j "defaultVoice st"] by blast
      with k j show "x = y" by simp
    qed
  qed
  from a d s v inj uniqueInOrder_eq [of "map speakerLabel results"] show ?thesis
    by (simp add: rotatedVoice_def)
qed

theorem speaker_voice_assignment_witness:
  "fileLoaded puckStudio
   \<and> detectedSpeakers (startAnalysis (Some analysisResults) puckStudio)
     = [''Speaker 1'', ''Speaker 2'', ''Speaker 3'']
   \<and> Suc 0 < length (detectedSpeakers (startAnalysis (Some analysisResults) puckStudio))
   \<and> length (detectedSpeakers (startAnalysis (Some analysisResults) puckStudio)) \<le> 5
   \<and> map_of (speakerMap (startAnalysis (Some analysisResults) puckStudio)) ''Speaker 1'' = Some ''Puck''
   \<and> map_of (speakerMap (startAnalysis (Some analysisResults) puckStudio)) ''Speaker 2'' = Some ''Fenrir''
   \<and> map_of (speakerMap (startAnalysis (Some analysisResults) puckStudio)) ''Speaker 3'' = Some ''Charon''
   \<and> list_all (\<lambda>l. l \<noteq> ''__proto__'')
        (detectedSpeakers (startAnalysis (Some analysisResults) puckStudio))
   \<and> inj_on (map_of (speakerMap (startAnalysis (Some analysisResults) puckStudio)))
        (set (detectedSpeakers (startAnalysis (Some analysisResults) puckStudio)) - {''__proto__''})"
proof -
  let ?st' = "startAnalysis (Some analysisResults) puckStudio"
  have u: "uniqueInOrder (map speakerLabel analysisResults) = [''Speaker 1'', ''Speaker 2'', ''Speaker 3'']"
    by (simp add: uniqueInOrder_def analysisResults_def mkSegment_def)
  have dv: "defaultVoice puckStudio = ''Puck''" by (simp add: puckStudio_def)
  have fl: "fileLoaded puckStudio" by (simp add: puckStudio_def scenario3_def)
  have fi: "findIndex (\<lambda>v. voice_id v = ''Puck'') VOICES = 1"
    by (simp add: findIndex_def VOICES_def)
  have vs: "voice_id (VOICES ! 1) = ''Puck''" "voice_id (VOICES ! 2) = ''Fenrir''"
    "voice_id (VOICES ! 3) = ''Charon''"
    by (simp_all add: VOICES_def)
  note t = speaker_voice_assignment [OF fl, of analysisResults]
  from t have d: "detectedSpeakers ?st' = [''Speaker 1'', ''Speaker 2'', ''Speaker 3'']"
    unfolding u by blast
  from t have m: "\<forall>k<length (detectedSpeakers ?st').
         detectedSpeakers ?st' ! k \<noteq> ''__proto__'' \<longrightarrow>
         map_of (speakerMap ?st') (detectedSpeakers ?st' ! k)
           = Some (if k = 0 then defaultVoice puckStudio
                   else voice_id (VOICES ! nat ((findIndex (\<lambda>v. voice_id v = defaultVoice puckStudio) VOICES
                                                   + int k) mod 5)))"
    by blast
  from m [rule_format, of 0] m [rule_format, of 1] m [rule_format, of 2]
  have ms: "map_of (speakerMap ?st') ''Speaker 1'' = Some ''Puck''"
    "map_of (speakerMap ?st') ''Speaker 2'' = Some ''Fenrir''"
    "map_of (speakerMap ?st') ''Speaker 3'' = Some ''Charon''"
    unfolding d dv fi by (simp_all add: vs)
  from t have "length (detectedSpeakers ?st') \<le> 5 \<longrightarrow>
         inj_on (map_of (speakerMap ?st')) (set (detectedSpeakers ?st') - {''__proto__''})" by blast
  then have i: "inj_on (map_of (speakerMap ?st')) (set (detectedSpeakers ?st') - {''__proto__''})"
    unfolding d by simp
  from fl d ms i show ?thesis by simp
qed

end
